theory Spec2Isabelle
  imports Complex_Main "HOL-Library.Log_Nat" "HOL-Library.AList"
begin

section \<open>Python values used by \<open>pdf_maker.py\<close>\<close>

text \<open>
  The exceptions that the modelled code can raise. Every procedure of the exporter returns
  either \<open>Inl (e, s)\<close> (exception \<open>e\<close> raised, with the state \<open>s\<close> reached at that point:
  mutations done before a raise persist) or \<open>Inr\<close> of its normal result.
\<close>

datatype py_error =
  KeyError | AttributeError | IndexError | ValueError | TypeError
  | ZeroDivisionError | OverflowError

subsection \<open>Floats\<close>

text \<open>
  A Python float is an IEEE binary64 number. Finite floats are modelled by the rational
  they denote; every arithmetic operation is the exact operation followed by rounding to
  the nearest double, ties to even (\<open>round_to_double\<close>). Infinities, NaN and the sign of
  zero are not modelled; the only operation of the program that can leave the finite
  range is the true division of two integers, which raises \<open>OverflowError\<close>.
\<close>

definition round_half_even :: "rat \<Rightarrow> int" where
  "round_half_even y =
     (let f = \<lfloor>y\<rfloor>; d = y - of_int f
      in if d < 1 / 2 then f else if 1 / 2 < d then f + 1
         else if even f then f else f + 1)"

definition float_exponent :: "rat \<Rightarrow> int" where
  \<comment> \<open>for \<open>0 < x\<close>: the \<open>e\<close> with \<open>2 powi e \<le> x < 2 powi (e + 1)\<close>\<close>
  "float_exponent x =
     (if 1 \<le> x then bitlen \<lfloor>x\<rfloor> - 1 else - bitlen (\<lceil>1 / x\<rceil> - 1))"

definition round_to_double :: "rat \<Rightarrow> rat" where
  \<comment> \<open>53 significant bits; below \<open>2 powi (- 1022)\<close> the spacing stays \<open>2 powi (- 1074)\<close>\<close>
  "round_to_double x =
     (if x = 0 then 0
      else let e = max (float_exponent \<bar>x\<bar>) (- 1022); u = 2 powi (e - 52)
           in of_int (round_half_even (x / u)) * u)"

definition float_of_int :: "int \<Rightarrow> rat" where
  "float_of_int n = round_to_double (of_int n)"

definition fadd :: "rat \<Rightarrow> rat \<Rightarrow> rat" where
  "fadd a b = round_to_double (a + b)"

definition fsub :: "rat \<Rightarrow> rat \<Rightarrow> rat" where
  "fsub a b = round_to_double (a - b)"

definition fmul :: "rat \<Rightarrow> rat \<Rightarrow> rat" where
  "fmul a b = round_to_double (a * b)"

definition py_truediv :: "int \<Rightarrow> int \<Rightarrow> py_error + rat" where
  \<comment> \<open>\<open>a / b\<close> on two ints: the correctly rounded quotient\<close>
  "py_truediv a b =
     (if b = 0 then Inl ZeroDivisionError
      else let r = round_to_double (of_int a / of_int b)
           in if 2 ^ 1024 \<le> \<bar>r\<bar> then Inl OverflowError else Inr r)"

definition py_float_mod :: "rat \<Rightarrow> rat \<Rightarrow> py_error + rat" where
  \<comment> \<open>\<open>x % w\<close> on floats: the exact C \<open>fmod\<close>, moved to the sign of \<open>w\<close>\<close>
  "py_float_mod x w =
     (if w = 0 then Inl ZeroDivisionError
      else let q = x / w;
               m = x - w * of_int (if 0 \<le> q then \<lfloor>q\<rfloor> else \<lceil>q\<rceil>)
           in Inr (if m \<noteq> 0 \<and> (w < 0) \<noteq> (m < 0) then fadd m w else m))"

definition py_int_of_float :: "rat \<Rightarrow> int" where
  \<comment> \<open>\<open>int(x)\<close> truncates towards zero\<close>
  "py_int_of_float x = (if 0 \<le> x then \<lfloor>x\<rfloor> else \<lceil>x\<rceil>)"

definition py_round :: "rat \<Rightarrow> nat \<Rightarrow> rat" where
  \<comment> \<open>\<open>round(x, ndigits)\<close>: the decimal nearest to the exact value of \<open>x\<close>, as a double\<close>
  "py_round x ndigits =
     round_to_double (of_int (round_half_even (x * 10 ^ ndigits)) / 10 ^ ndigits)"

subsection \<open>Strings\<close>

text \<open>
  A string is a list of characters with the code points 0 to 255. The methods below
  follow \<open>str\<close> on such strings: the white space of \<open>str.strip\<close> is the blank, the
  controls 9 to 13 and 28 to 31, and the code points 133 and 160; \<open>str.splitlines\<close>
  breaks at the controls 10 to 13 and 28 to 30 and at the code point 133.
\<close>

definition py_ord :: "char \<Rightarrow> nat" where
  "py_ord c = of_char c"

definition py_isspace :: "char \<Rightarrow> bool" where
  "py_isspace c = (c = CHR '' '' \<or> (9 \<le> py_ord c \<and> py_ord c \<le> 13)
                   \<or> (28 \<le> py_ord c \<and> py_ord c \<le> 31)
                   \<or> py_ord c = 133 \<or> py_ord c = 160)"

definition py_strip :: "string \<Rightarrow> string" where
  "py_strip s = rev (dropWhile py_isspace (rev (dropWhile py_isspace s)))"

definition py_endswith :: "string \<Rightarrow> string \<Rightarrow> bool" where
  "py_endswith s suffix = (length suffix \<le> length s \<and> drop (length s - length suffix) s = suffix)"

fun py_contains :: "string \<Rightarrow> string \<Rightarrow> bool" where
  \<comment> \<open>\<open>sub in s\<close>\<close>
  "py_contains sub [] = (sub = [])"
| "py_contains sub (c # cs) = (take (length sub) (c # cs) = sub \<or> py_contains sub cs)"

fun split_char :: "char \<Rightarrow> string \<Rightarrow> string list" where
  \<comment> \<open>\<open>s.split(sep)\<close> for a separator of one character: empty fields are kept\<close>
  "split_char sep [] = [[]]"
| "split_char sep (c # cs) =
     (case split_char sep cs of
        [] \<Rightarrow> [[c]]
      | w # ws \<Rightarrow> if c = sep then [] # w # ws else (c # w) # ws)"

definition is_linebreak :: "char \<Rightarrow> bool" where
  "is_linebreak c = ((10 \<le> py_ord c \<and> py_ord c \<le> 13)
                     \<or> (28 \<le> py_ord c \<and> py_ord c \<le> 30)
                     \<or> py_ord c = 133)"

fun splitlines_aux :: "string \<Rightarrow> string \<Rightarrow> string list" where
  "splitlines_aux cur [] = (if cur = [] then [] else [rev cur])"
| "splitlines_aux cur (c # cs) =
     (if c = CHR 0x0D \<and> (case cs of [] \<Rightarrow> False | d # _ \<Rightarrow> d = CHR 0x0A)
      then rev cur # splitlines_aux [] (tl cs)
      else if is_linebreak c then rev cur # splitlines_aux [] cs
      else splitlines_aux (c # cur) cs)"

definition py_splitlines :: "string \<Rightarrow> string list" where
  "py_splitlines s = splitlines_aux [] s"

definition rfind_char :: "char \<Rightarrow> string \<Rightarrow> int" where
  \<comment> \<open>\<open>s.rfind(c)\<close>: the last index of \<open>c\<close>, or \<open>-1\<close>\<close>
  "rfind_char c s =
     (case dropWhile (\<lambda>d. d \<noteq> c) (rev s) of
        [] \<Rightarrow> - 1
      | _ # pre \<Rightarrow> int (length pre))"

definition slice_to :: "string \<Rightarrow> int \<Rightarrow> string" where
  \<comment> \<open>\<open>s[:i]\<close>: a negative bound counts from the end\<close>
  "slice_to s i = (if i < 0 then take (nat (int (length s) + i)) s else take (nat i) s)"

definition is_digit :: "char \<Rightarrow> bool" where
  "is_digit c = (48 \<le> py_ord c \<and> py_ord c \<le> 57)"

definition digits_value :: "string \<Rightarrow> int" where
  "digits_value ds = foldl (\<lambda>acc c. 10 * acc + (int (py_ord c) - 48)) 0 ds"

fun valid_digits :: "string \<Rightarrow> bool" where
  \<comment> \<open>decimal digits, single underscores allowed between two digits\<close>
  "valid_digits [] = False"
| "valid_digits [c] = is_digit c"
| "valid_digits (c # d # cs) =
     (is_digit c \<and> (if d = CHR ''_'' then valid_digits cs else valid_digits (d # cs)))"

definition int_space :: "char \<Rightarrow> bool" where
  \<comment> \<open>what \<open>int\<close> skips around a number: the blank and the controls 9 to 13, and the
      spaces above 127, which it first turns into blanks; not the controls 28 to 31\<close>
  "int_space c = (c = CHR '' '' \<or> (9 \<le> py_ord c \<and> py_ord c \<le> 13)
                  \<or> py_ord c = 133 \<or> py_ord c = 160)"

definition py_int :: "string \<Rightarrow> py_error + int" where
  \<comment> \<open>\<open>int(s)\<close> on a string, base 10; more than 4300 digits are refused\<close>
  "py_int s =
     (case rev (dropWhile int_space (rev (dropWhile int_space s))) of
        [] \<Rightarrow> Inl ValueError
      | c # cs \<Rightarrow>
          let ds = (if c = CHR ''-'' \<or> c = CHR ''+'' then cs else c # cs)
          in if valid_digits ds \<and> length (filter is_digit ds) \<le> 4300
             then Inr ((if c = CHR ''-'' then - 1 else 1)
                        * digits_value (filter (\<lambda>d. d \<noteq> CHR ''_'') ds))
             else Inl ValueError)"

fun digits_of_nat :: "nat \<Rightarrow> string" where
  "digits_of_nat n =
     (if n < 10 then [char_of (48 + n)]
      else digits_of_nat (n div 10) @ [char_of (48 + n mod 10)])"

definition py_str_int :: "int \<Rightarrow> string" where
  \<comment> \<open>\<open>str(n)\<close>, as an f-string renders an int\<close>
  "py_str_int n = (if n < 0 then CHR ''-'' # digits_of_nat (nat (- n)) else digits_of_nat (nat n))"

section \<open>The collaborators of the exporter\<close>

subsection \<open>FPDF documents\<close>

text \<open>
  An \<open>FPDF\<close> object is modelled by its constructor arguments and the sequence of drawing
  calls made on it, in call order. Only the three methods the exporter calls occur.
\<close>

datatype fpdf_call =
  AddPage
  | Image string rat rat rat rat
  | DashedLine rat rat rat rat rat rat

datatype page_format = NamedFormat string | CustomFormat rat rat

record fpdf =
  orientation :: string
  unit :: string
  format :: page_format
  calls :: "fpdf_call list"

definition page_step :: "fpdf_call list list \<Rightarrow> fpdf_call \<Rightarrow> fpdf_call list list" where
  "page_step ps c =
     (case c of
        AddPage \<Rightarrow> ps @ [[]]
      | _ \<Rightarrow> if ps = [] then [] else butlast ps @ [last ps @ [c]])"

definition fpdf_pages :: "fpdf_call list \<Rightarrow> fpdf_call list list" where
  \<comment> \<open>the pages of a document, each with the drawing calls made while it was current\<close>
  "fpdf_pages cs = foldl page_step [] cs"

subsection \<open>The order, the file system and external commands\<close>

text \<open>
  Of a card image only \<open>slots\<close> and \<open>file_path\<close> are read; \<open>fronts\<close> and \<open>backs\<close> stand for
  \<open>order.fronts.cards\<close> and \<open>order.backs.cards\<close>.
\<close>

record card_image =
  slots :: "int list"
  file_path :: string

record card_order =
  fronts :: "card_image list"
  backs :: "card_image list"

type_synonym filesystem = "string \<rightharpoonup> string"

text \<open>
  What the program does not define itself is a parameter: \<open>run\<close> is the effect of
  \<open>subprocess.run(command, shell=True)\<close> (the captured standard output and the file
  system afterwards), \<open>download_images\<close> is the method of that name of a card collection.
\<close>

record env =
  run :: "string \<Rightarrow> filesystem \<Rightarrow> string \<times> filesystem"
  download_images :: "card_image list \<Rightarrow> filesystem \<Rightarrow> card_image list \<times> filesystem"

text \<open>
  A command run through \<open>subprocess.run\<close> is logged with the method that issued it and the
  paths it was built from; \<open>command_text\<close> below is the string passed to the shell.
\<close>

datatype tool_call =
  ConvertToJpg string string
  | CompressImage string
  | DownsizeImage string
  | CutAndReshape string
  | Identify string

datatype answer = AnswerNone | AnswerInt int | AnswerStr string

record answers =
  split_faces :: bool
  cards_per_file :: answer

section \<open>\<open>PdfExporter\<close>\<close>

text \<open>
  The attributes of the class that the modelled methods read or write, followed by the
  part of the outside world they act on: the files on disk, the commands run through
  \<open>subprocess.run\<close> and the documents written by \<open>pdf.output\<close>, both in call order.
  The progress bars and the state label are display only and are left out.
\<close>

record exporter =
  order :: card_order
  pdf :: "fpdf option"
  card_width_in_inches :: rat
  card_height_in_inches :: rat
  file_num :: int
  number_of_cards_per_file :: int
  paths_by_slot :: "(int \<times> string \<times> string) list"
  save_path :: string
  separate_faces :: bool
  current_face :: string
  files :: filesystem
  commands :: "tool_call list"
  outputs :: "(string \<times> fpdf) list"

type_synonym 'a outcome = "(py_error \<times> exporter) + 'a"

definition outcome_state :: "exporter outcome \<Rightarrow> exporter" where
  \<comment> \<open>the state in which a call ends, whether it returned or raised\<close>
  "outcome_state r = (case r of Inl (e, s) \<Rightarrow> s | Inr s \<Rightarrow> s)"

definition ask_questions :: "answers \<Rightarrow> exporter \<Rightarrow> exporter outcome" where
  "ask_questions a s =
     (if split_faces a
      then Inr (s\<lparr>separate_faces := True, number_of_cards_per_file := 1\<rparr>)
      else case (case cards_per_file a of
                   AnswerNone \<Rightarrow> Inl TypeError
                 | AnswerInt n \<Rightarrow> Inr n
                 | AnswerStr t \<Rightarrow> py_int t) of
             Inl e \<Rightarrow> Inl (e, s)
           | Inr int_cards_per_file \<Rightarrow>
               Inr (s\<lparr>number_of_cards_per_file :=
                         (if int_cards_per_file < 1 then 1 else int_cards_per_file)\<rparr>))"

definition generate_pdf :: "exporter \<Rightarrow> exporter" where
  "generate_pdf s =
     s\<lparr>pdf := Some \<lparr>orientation = ''P'', unit = ''in'',
                     format = CustomFormat (card_width_in_inches s) (card_height_in_inches s),
                     calls = []\<rparr>\<rparr>"

definition generate_pdf_a3 :: "exporter \<Rightarrow> exporter" where
  "generate_pdf_a3 s =
     s\<lparr>pdf := Some \<lparr>orientation = ''L'', unit = ''mm'', format = NamedFormat ''A3'',
                     calls = []\<rparr>\<rparr>"

definition pdf_call :: "fpdf_call \<Rightarrow> exporter \<Rightarrow> exporter outcome" where
  \<comment> \<open>a method call on \<open>self.pdf\<close>, which is \<open>None\<close> until a document is generated\<close>
  "pdf_call c s =
     (case pdf s of
        None \<Rightarrow> Inl (AttributeError, s)
      | Some p \<Rightarrow> Inr (s\<lparr>pdf := Some (p\<lparr>calls := calls p @ [c]\<rparr>)\<rparr>))"

fun pdf_calls :: "fpdf_call list \<Rightarrow> exporter \<Rightarrow> exporter outcome" where
  "pdf_calls [] s = Inr s"
| "pdf_calls (c # cs) s =
     (case pdf_call c s of Inl e \<Rightarrow> Inl e | Inr s1 \<Rightarrow> pdf_calls cs s1)"

definition add_image :: "string \<Rightarrow> exporter \<Rightarrow> exporter outcome" where
  "add_image image_path s =
     pdf_calls [AddPage,
                Image image_path 0 0 (card_width_in_inches s) (card_height_in_inches s)] s"

definition save_file :: "exporter \<Rightarrow> exporter outcome" where
  "save_file s =
     (case pdf s of
        None \<Rightarrow> Inl (AttributeError, s)
      | Some p \<Rightarrow>
          Inr (s\<lparr>outputs := outputs s
                     @ [(save_path s @ py_str_int (file_num s) @ ''.pdf'', p)]\<rparr>))"

subsection \<open>Collecting the paths\<close>

definition by_slots :: "card_image list \<Rightarrow> (int \<times> string) list" where
  \<comment> \<open>the dictionary filled by the two nested loops over cards and their slots\<close>
  "by_slots cards =
     foldl (\<lambda>d card. foldl (\<lambda>d slot. AList.update slot (file_path card) d) d (slots card))
       [] cards"

fun collect_paths ::
  "(int \<times> string) list \<Rightarrow> (int \<times> string) list \<Rightarrow> (int \<times> string \<times> string) list
     \<Rightarrow> int list \<Rightarrow> py_error + (int \<times> string \<times> string) list" where
  "collect_paths backs_by_slots fronts_by_slots paths [] = Inr paths"
| "collect_paths backs_by_slots fronts_by_slots paths (slot # rest) =
     (case map_of backs_by_slots 0 of
        None \<Rightarrow> Inl KeyError
      | Some slot0_back \<Rightarrow>
          (case map_of fronts_by_slots slot of
             None \<Rightarrow> Inl KeyError
           | Some front \<Rightarrow>
               collect_paths backs_by_slots fronts_by_slots
                 (AList.update slot
                    (case map_of backs_by_slots slot of
                       None \<Rightarrow> slot0_back | Some back \<Rightarrow> back,
                     front) paths)
                 rest))"

definition download_and_collect_images :: "env \<Rightarrow> exporter \<Rightarrow> exporter outcome" where
  "download_and_collect_images E s =
     (let (fronts1, fs1) = download_images E (fronts (order s)) (files s);
          (backs1, fs2) = download_images E (backs (order s)) fs1;
          s1 = s\<lparr>order := \<lparr>fronts = fronts1, backs = backs1\<rparr>, files := fs2\<rparr>;
          backs_by_slots = by_slots backs1;
          fronts_by_slots = by_slots fronts1
      in case collect_paths backs_by_slots fronts_by_slots [] (map fst fronts_by_slots) of
           Inl e \<Rightarrow> Inl (e, s1)
         | Inr paths \<Rightarrow> Inr (s1\<lparr>paths_by_slot := paths\<rparr>))"

subsection \<open>Sequential export\<close>

fun export_loop :: "exporter \<Rightarrow> int list \<Rightarrow> exporter outcome" where
  "export_loop s [] = Inr s"
| "export_loop s (slot # rest) =
     (case map_of (paths_by_slot s) slot of
        None \<Rightarrow> Inl (KeyError, s)
      | Some (back_path, front_path) \<Rightarrow>
          (case (if slot = 0 then Inr (generate_pdf s)
                 else if number_of_cards_per_file s = 0 then Inl (ZeroDivisionError, s)
                 else if slot mod number_of_cards_per_file s = 0
                 then (case save_file s of
                         Inl e \<Rightarrow> Inl e
                       | Inr s1 \<Rightarrow> Inr (generate_pdf (s1\<lparr>file_num := file_num s1 + 1\<rparr>)))
                 else Inr s) of
             Inl e \<Rightarrow> Inl e
           | Inr s2 \<Rightarrow>
               (case add_image back_path s2 of
                  Inl e \<Rightarrow> Inl e
                | Inr s3 \<Rightarrow>
                    (case add_image front_path s3 of
                       Inl e \<Rightarrow> Inl e
                     | Inr s4 \<Rightarrow> export_loop s4 rest))))"

definition export :: "exporter \<Rightarrow> exporter outcome" where
  "export s =
     (case export_loop s (sort (map fst (paths_by_slot s))) of
        Inl e \<Rightarrow> Inl e
      | Inr s1 \<Rightarrow> save_file s1)"

subsection \<open>Grid-sheet export\<close>

definition float_lit :: "rat \<Rightarrow> rat" where
  \<comment> \<open>a float literal denotes the double nearest to its decimal value\<close>
  "float_lit r = round_to_double r"

definition line_w :: rat where "line_w = float_lit (14 / 100)"
definition line_lv :: int where "line_lv = 297"
definition line_lh :: int where "line_lh = 440"
definition image_w :: int where "image_w = 63"
definition image_h :: int where "image_h = 88"
definition top_mm :: int where "top_mm = 15"
definition left_mm :: int where "left_mm = 20"
definition gap :: rat where "gap = float_lit (1 / 2)"

definition vline :: "rat \<Rightarrow> fpdf_call" where
  "vline x = DashedLine x 0 x (of_int line_lv) 1 2"

definition hline :: "rat \<Rightarrow> fpdf_call" where
  "hline y = DashedLine 0 y (of_int line_lh) y 1 2"

definition inner_offset :: "int \<Rightarrow> int \<Rightarrow> int \<Rightarrow> rat" where
  \<comment> \<open>\<open>start + extent * i + gap * (i-1)\<close>\<close>
  "inner_offset start extent i =
     fadd (float_of_int (start + extent * i)) (fmul gap (float_of_int (i - 1)))"

definition a3_cut_guides :: "fpdf_call list" where
  "a3_cut_guides =
     [vline (fsub (float_of_int left_mm) line_w),
      vline (fadd (fadd (float_of_int (left_mm + image_w * 6)) (fmul gap (float_of_int 5)))
                  (float_lit (1 / 10))),
      hline (fsub (float_of_int top_mm) line_w),
      hline (fadd (fadd (float_of_int (top_mm + image_h * 3)) (fmul gap (float_of_int 2)))
                  (float_lit (1 / 10)))]
     @ concat (map (\<lambda>i. [vline (fadd (inner_offset left_mm image_w i) (float_lit (1 / 10))),
                          vline (fsub (fadd (inner_offset left_mm image_w i) gap) line_w)])
                 [1..5])
     @ concat (map (\<lambda>i. [hline (fadd (inner_offset top_mm image_h i) (float_lit (1 / 10))),
                          hline (fsub (fadd (inner_offset top_mm image_h i) gap) line_w)])
                 [1..2])"

definition add_a3_page :: "exporter \<Rightarrow> exporter outcome" where
  "add_a3_page s = pdf_calls (AddPage # a3_cut_guides) s"

definition a3_x :: "nat \<Rightarrow> rat" where
  "a3_x i =
     fadd (float_of_int (left_mm + int (i mod 6) * image_w))
          (fmul (float_of_int (int (i mod 6))) gap)"

definition a3_row :: "nat \<Rightarrow> py_error + int" where
  \<comment> \<open>\<open>int(i / 6 % 3)\<close>\<close>
  "a3_row i =
     (case py_truediv (int i) 6 of
        Inl e \<Rightarrow> Inl e
      | Inr q \<Rightarrow>
          (case py_float_mod q (float_of_int 3) of
             Inl e \<Rightarrow> Inl e
           | Inr m \<Rightarrow> Inr (py_int_of_float m)))"

definition a3_y :: "nat \<Rightarrow> py_error + rat" where
  "a3_y i =
     (case a3_row i of
        Inl e \<Rightarrow> Inl e
      | Inr r \<Rightarrow> Inr (fadd (float_of_int (top_mm + r * image_h)) (fmul (float_of_int r) gap)))"

fun export_a3_loop :: "exporter \<Rightarrow> nat \<Rightarrow> int list \<Rightarrow> exporter outcome" where
  "export_a3_loop s i [] = Inr s"
| "export_a3_loop s i (slot # rest) =
     (case map_of (paths_by_slot s) slot of
        None \<Rightarrow> Inl (KeyError, s)
      | Some image_paths_tuple \<Rightarrow>
          (case (if 0 < i \<and> i mod 18 = 0 then add_a3_page s else Inr s) of
             Inl e \<Rightarrow> Inl e
           | Inr s1 \<Rightarrow>
               (case a3_y i of
                  Inl e \<Rightarrow> Inl (e, s1)
                | Inr y \<Rightarrow>
                    (case pdf_call (Image (snd image_paths_tuple) (a3_x i) y
                                      (of_int image_w) (of_int image_h)) s1 of
                       Inl e \<Rightarrow> Inl e
                     | Inr s2 \<Rightarrow> export_a3_loop s2 (i + 1) rest))))"

definition export_a3 :: "exporter \<Rightarrow> exporter outcome" where
  "export_a3 s =
     (case add_a3_page (generate_pdf_a3 s) of
        Inl e \<Rightarrow> Inl e
      | Inr s1 \<Rightarrow>
          (case export_a3_loop s1 0 (sort (map fst (paths_by_slot s1))) of
             Inl e \<Rightarrow> Inl e
           | Inr s2 \<Rightarrow> save_file s2))"

subsection \<open>Preparing the images\<close>

definition convert_command :: "string \<Rightarrow> string \<Rightarrow> string" where
  \<open>convert_command image_path jpeg_path =
     ''magick "'' @ image_path @ ''" "'' @ jpeg_path @ ''"''\<close>

definition compress_command :: "string \<Rightarrow> string" where
  \<open>compress_command jpeg_path =
     ''magick "'' @ jpeg_path
       @ ''" -strip -interlace Plane -gaussian-blur 0.05 -quality 85% "''
       @ jpeg_path @ ''"''\<close>

definition downsize_command :: "string \<Rightarrow> string" where
  \<open>downsize_command jpeg_path = ''mogrify -resize "60%" "'' @ jpeg_path @ ''"''\<close>

definition reshape_command :: "string \<Rightarrow> string" where
  \<open>reshape_command jpeg_path =
     ''mogrify -shave "2.8%x2.8%" -gravity center -crop "63:88" "''
       @ jpeg_path @ ''"''\<close>

definition identify_command :: "string \<Rightarrow> string" where
  \<open>identify_command jpeg_path = ''identify -verbose "'' @ jpeg_path @ ''"''\<close>

fun command_text :: "tool_call \<Rightarrow> string" where
  "command_text (ConvertToJpg image_path jpeg_path) = convert_command image_path jpeg_path"
| "command_text (CompressImage jpeg_path) = compress_command jpeg_path"
| "command_text (DownsizeImage jpeg_path) = downsize_command jpeg_path"
| "command_text (CutAndReshape jpeg_path) = reshape_command jpeg_path"
| "command_text (Identify jpeg_path) = identify_command jpeg_path"

definition subprocess_run :: "env \<Rightarrow> tool_call \<Rightarrow> exporter \<Rightarrow> string \<times> exporter" where
  "subprocess_run E call s =
     (let (out, fs) = run E (command_text call) (files s)
      in (out, s\<lparr>files := fs, commands := commands s @ [call]\<rparr>))"

definition new_jpg_path :: "string \<Rightarrow> string" where
  "new_jpg_path image_path =
     (let last_dot_index = rfind_char (CHR ''.'') image_path
      in slice_to image_path last_dot_index @ ''.jpg'')"

definition convert_to_jpg :: "env \<Rightarrow> string \<Rightarrow> exporter \<Rightarrow> string \<times> exporter" where
  "convert_to_jpg E image_path s =
     (if py_endswith image_path ''jpg'' then (image_path, s)
      else let jpeg_path = new_jpg_path image_path
           in if files s jpeg_path \<noteq> None then (jpeg_path, s)
              else (jpeg_path,
                    snd (subprocess_run E (ConvertToJpg image_path jpeg_path) s)))"

definition compress_image :: "env \<Rightarrow> string \<Rightarrow> exporter \<Rightarrow> exporter" where
  "compress_image E jpeg_path s = snd (subprocess_run E (CompressImage jpeg_path) s)"

definition downsize_image :: "env \<Rightarrow> string \<Rightarrow> exporter \<Rightarrow> exporter" where
  "downsize_image E jpeg_path s = snd (subprocess_run E (DownsizeImage jpeg_path) s)"

definition cut_and_reshape :: "env \<Rightarrow> string \<Rightarrow> exporter \<Rightarrow> exporter" where
  "cut_and_reshape E jpeg_path s = snd (subprocess_run E (CutAndReshape jpeg_path) s)"

definition parse_geometry :: "string \<Rightarrow> py_error + (int \<times> int)" where
  \<comment> \<open>\<open>w, h = line.strip().split(" ")[1].split("+")[0].split("x")\<close>, then \<open>int\<close> of both\<close>
  "parse_geometry line =
     (case split_char (CHR '' '') (py_strip line) of
        _ # field # _ \<Rightarrow>
          (case split_char (CHR ''+'') field of
             [] \<Rightarrow> Inl IndexError
           | dims # _ \<Rightarrow>
               (case split_char (CHR ''x'') dims of
                  [w, h] \<Rightarrow>
                    (case py_int w of
                       Inl e \<Rightarrow> Inl e
                     | Inr w \<Rightarrow> (case py_int h of Inl e \<Rightarrow> Inl e | Inr h \<Rightarrow> Inr (w, h)))
                | _ \<Rightarrow> Inl ValueError))
      | _ \<Rightarrow> Inl IndexError)"

definition same_shape :: "int \<Rightarrow> int \<Rightarrow> py_error + bool" where
  \<comment> \<open>\<open>round(w/63, 1) == round(h/88, 1)\<close>\<close>
  "same_shape w h =
     (case py_truediv w 63 of
        Inl e \<Rightarrow> Inl e
      | Inr wq \<Rightarrow>
          (case py_truediv h 88 of
             Inl e \<Rightarrow> Inl e
           | Inr hq \<Rightarrow> Inr (py_round wq 1 = py_round hq 1)))"

fun geometry_loop :: "bool \<Rightarrow> string list \<Rightarrow> py_error + bool" where
  \<comment> \<open>the loop over the output lines; the argument is \<open>need_reshape\<close> so far\<close>
  "geometry_loop need_reshape [] = Inr need_reshape"
| "geometry_loop need_reshape (line # rest) =
     (if py_contains ''Geometry'' line
      then (case parse_geometry line of
              Inl e \<Rightarrow> Inl e
            | Inr (w, h) \<Rightarrow>
                (case same_shape w h of
                   Inl e \<Rightarrow> Inl e
                 | Inr same \<Rightarrow> geometry_loop (if same then False else need_reshape) rest))
      else geometry_loop need_reshape rest)"

definition check_output :: "string \<Rightarrow> py_error + bool \<times> bool \<times> bool" where
  \<comment> \<open>the part of \<open>images_havent_been_prepared\<close> after the command has run;
      the result is \<open>[need_downsize, need_reshape, need_compression]\<close>\<close>
  "check_output output =
     (let need_downsize = False; need_compression = False
      in case geometry_loop True (py_splitlines output) of
           Inl e \<Rightarrow> Inl e
         | Inr need_reshape \<Rightarrow> Inr (need_downsize, need_reshape, need_compression))"

definition images_havent_been_prepared ::
  "env \<Rightarrow> string \<Rightarrow> exporter \<Rightarrow> ((bool \<times> bool \<times> bool) \<times> exporter) outcome" where
  "images_havent_been_prepared E jpeg_path s =
     (let (output, s1) = subprocess_run E (Identify jpeg_path) s
      in case check_output output of
           Inl e \<Rightarrow> Inl (e, s1)
         | Inr flags \<Rightarrow> Inr (flags, s1))"

fun prepare_loop :: "env \<Rightarrow> exporter \<Rightarrow> int list \<Rightarrow> exporter outcome" where
  "prepare_loop E s [] = Inr s"
| "prepare_loop E s (slot # rest) =
     (case map_of (paths_by_slot s) slot of
        None \<Rightarrow> Inl (KeyError, s)
      | Some front_back_image_tuple \<Rightarrow>
          (let (jpeg_path, s1) = convert_to_jpg E (snd front_back_image_tuple) s;
               s2 = s1\<lparr>paths_by_slot :=
                         AList.update slot (fst front_back_image_tuple, jpeg_path)
                           (paths_by_slot s1)\<rparr>
           in case images_havent_been_prepared E jpeg_path s2 of
                Inl e \<Rightarrow> Inl e
              | Inr ((need_downsize, need_reshape, need_compression), s3) \<Rightarrow>
                  (let s4 = (if need_compression then compress_image E jpeg_path s3 else s3);
                       s5 = (if need_reshape then cut_and_reshape E jpeg_path s4 else s4);
                       s6 = (if need_downsize then downsize_image E jpeg_path s5 else s5)
                   in prepare_loop E s6 rest)))"

definition prepare_images :: "env \<Rightarrow> exporter \<Rightarrow> exporter outcome" where
  "prepare_images E s = prepare_loop E s (map fst (paths_by_slot s))"

subsection \<open>The entry point\<close>

definition execute :: "env \<Rightarrow> exporter \<Rightarrow> exporter outcome" where
  "execute E s =
     (case download_and_collect_images E s of
        Inl e \<Rightarrow> Inl e
      | Inr s1 \<Rightarrow>
          if separate_faces s1
          then (case prepare_images E (s1\<lparr>number_of_cards_per_file := 1\<rparr>) of
                  Inl e \<Rightarrow> Inl e
                | Inr s2 \<Rightarrow> export_a3 s2)
          else export s1)"

section \<open>Reference layouts\<close>

text \<open>
  The layouts that the export methods are compared with, written in closed form over the
  position of a slot in ascending slot order.
\<close>

definition slots_in_order :: "exporter \<Rightarrow> int list" where
  "slots_in_order s = sort (map fst (paths_by_slot s))"

definition backs_in_order :: "exporter \<Rightarrow> string list" where
  "backs_in_order s = map (\<lambda>k. fst (the (map_of (paths_by_slot s) k))) (slots_in_order s)"

definition fronts_in_order :: "exporter \<Rightarrow> string list" where
  "fronts_in_order s = map (\<lambda>k. snd (the (map_of (paths_by_slot s) k))) (slots_in_order s)"

subsection \<open>Grid sheet\<close>

definition a3_place :: "nat \<Rightarrow> string \<Rightarrow> fpdf_call" where
  \<comment> \<open>position \<open>i\<close>: column \<open>i mod 6\<close>, row \<open>i div 6 mod 3\<close>; margins 20 and 15, card 63 by 88,
      gap one half\<close>
  "a3_place i image_path =
     Image image_path
       (20 + of_nat (i mod 6) * 63 + of_nat (i mod 6) * (1 / 2))
       (15 + of_nat (i div 6 mod 3) * 88 + of_nat (i div 6 mod 3) * (1 / 2))
       63 88"

definition a3_calls :: "string list \<Rightarrow> fpdf_call list" where
  \<comment> \<open>a sheet page with its cut guides is opened before every position that is a multiple
      of 18, then the image is placed\<close>
  "a3_calls fs =
     concat (map (\<lambda>i. (if i mod 18 = 0 then AddPage # a3_cut_guides else [])
                        @ [a3_place i (fs ! i)])
               [0..<length fs])"

definition a3_sheet :: "string list \<Rightarrow> nat \<Rightarrow> fpdf_call list" where
  \<comment> \<open>sheet page \<open>p\<close>: the cut guides, then positions \<open>18 p\<close> to \<open>18 p + 17\<close> as far as they exist\<close>
  "a3_sheet fs p =
     a3_cut_guides
       @ map (\<lambda>i. a3_place i (fs ! i)) [18 * p..<min (length fs) (18 * p + 18)]"

definition a3_document :: "string list \<Rightarrow> fpdf" where
  "a3_document fs =
     \<lparr>orientation = ''L'', unit = ''mm'', format = NamedFormat ''A3'', calls = a3_calls fs\<rparr>"

section \<open>Example inputs\<close>

definition new_exporter :: "card_order \<Rightarrow> exporter" where
  \<comment> \<open>the attribute defaults of the class, before the questions are asked\<close>
  "new_exporter cards =
     \<lparr>order = cards, pdf = None,
      card_width_in_inches = float_lit (273 / 100),
      card_height_in_inches = float_lit (371 / 100),
      file_num = 1, number_of_cards_per_file = 60, paths_by_slot = [],
      save_path = [], separate_faces = False, current_face = ''all'',
      files = Map.empty, commands = [], outputs = []\<rparr>"

definition example_env :: env where
  \<comment> \<open>commands print nothing and change no file; downloading changes nothing\<close>
  "example_env = \<lparr>run = (\<lambda>command fs. ([], fs)), download_images = (\<lambda>cards fs. (cards, fs))\<rparr>"

definition example_order :: card_order where
  "example_order =
     \<lparr>fronts = [\<lparr>slots = [0, 1], file_path = ''front_a.png''\<rparr>,
                \<lparr>slots = [2], file_path = ''front_b.jpg''\<rparr>],
      backs = [\<lparr>slots = [0, 1, 2], file_path = ''back.png''\<rparr>]\<rparr>"

definition example_paths :: "(int \<times> string \<times> string) list" where
  "example_paths =
     [(1, ''back.png'', ''front_a.jpg''), (0, ''back.png'', ''front_a.jpg''),
      (2, ''back.png'', ''front_b.jpg'')]"

definition example_exporter :: exporter where
  "example_exporter =
     (new_exporter example_order)
       \<lparr>paths_by_slot := example_paths, save_path := ''export/cards/''\<rparr>"

definition empty_exporter :: exporter where
  \<comment> \<open>a new exporter whose order has no card, so that no slot is ever collected\<close>
  "empty_exporter = (new_exporter \<lparr>fronts = [], backs = []\<rparr>)\<lparr>save_path := ''export/cards/''\<rparr>"

definition example_answers :: answers where
  "example_answers = \<lparr>split_faces = False, cards_per_file = AnswerStr ''0''\<rparr>"

definition example_identify_output :: "nat \<Rightarrow> nat \<Rightarrow> string" where
  \<comment> \<open>the lines of \<open>identify -verbose\<close> that matter, for an image of the given size\<close>
  "example_identify_output w h =
     ''Image: card.jpg'' @ [CHR 0x0A]
     @ ''  Geometry: '' @ digits_of_nat w @ ''x'' @ digits_of_nat h @ ''+0+0'' @ [CHR 0x0A]"

subsection \<open>Command logs\<close>


subsection \<open>Collected paths\<close>

definition acquired_fronts :: "env \<Rightarrow> exporter \<Rightarrow> card_image list" where
  \<comment> \<open>the front cards as \<open>download_images\<close> leaves them\<close>
  "acquired_fronts E s = fst (download_images E (fronts (order s)) (files s))"

definition acquired_backs :: "env \<Rightarrow> exporter \<Rightarrow> card_image list" where
  \<comment> \<open>the back cards as \<open>download_images\<close> leaves them, the fronts having been downloaded\<close>
  "acquired_backs E s =
     fst (download_images E (backs (order s))
            (snd (download_images E (fronts (order s)) (files s))))"

definition custom_back_order :: card_order where
  \<comment> \<open>slot 0 has a back of its own, slot 1 has none; the default back is the back of
      slot 2 only\<close>
  "custom_back_order =
     \<lparr>fronts = [\<lparr>slots = [0, 1, 2], file_path = ''front.png''\<rparr>],
      backs = [\<lparr>slots = [0], file_path = ''custom_back.png''\<rparr>,
               \<lparr>slots = [2], file_path = ''default_back.png''\<rparr>]\<rparr>"

definition backless_first_order :: card_order where
  \<comment> \<open>slot 0 has no back of its own; the default back is the back of slot 1 only\<close>
  "backless_first_order =
     \<lparr>fronts = [\<lparr>slots = [0, 1], file_path = ''front.png''\<rparr>],
      backs = [\<lparr>slots = [1], file_path = ''default_back.png''\<rparr>]\<rparr>"

subsection \<open>Sequential documents\<close>

definition card_pages :: "exporter \<Rightarrow> nat \<Rightarrow> fpdf_call list list" where
  \<comment> \<open>the two pages of the slot at position \<open>i\<close>: its back, then its front, each at the
      origin with the configured card width and height\<close>
  "card_pages s i =
     [[Image (backs_in_order s ! i) 0 0 (card_width_in_inches s) (card_height_in_inches s)],
      [Image (fronts_in_order s ! i) 0 0 (card_width_in_inches s) (card_height_in_inches s)]]"

definition card_calls :: "exporter \<Rightarrow> nat \<Rightarrow> fpdf_call list" where
  "card_calls s i =
     [AddPage,
      Image (backs_in_order s ! i) 0 0 (card_width_in_inches s) (card_height_in_inches s),
      AddPage,
      Image (fronts_in_order s ! i) 0 0 (card_width_in_inches s) (card_height_in_inches s)]"

definition card_document :: "exporter \<Rightarrow> nat \<Rightarrow> nat \<Rightarrow> fpdf" where
  \<comment> \<open>the document holding the slots at positions \<open>lo\<close> up to \<open>hi - 1\<close>\<close>
  "card_document s lo hi =
     \<lparr>orientation = ''P'', unit = ''in'',
      format = CustomFormat (card_width_in_inches s) (card_height_in_inches s),
      calls = concat (map (card_calls s) [lo..<hi])\<rparr>"

definition document_name :: "exporter \<Rightarrow> nat \<Rightarrow> string" where
  \<comment> \<open>the path of the \<open>j\<close>-th document written, counted from 0\<close>
  "document_name s j = save_path s @ py_str_int (file_num s + int j) @ ''.pdf''"

definition sequential_outputs :: "exporter \<Rightarrow> nat \<Rightarrow> nat \<Rightarrow> (string \<times> fpdf) list" where
  \<comment> \<open>\<open>n\<close> slots in documents of \<open>k\<close> slots each, the last one possibly shorter\<close>
  "sequential_outputs s k n =
     map (\<lambda>j. (document_name s j, card_document s (j * k) (min n (j * k + k))))
       [0..<(n + k - 1) div k]"

definition seq_state :: "exporter \<Rightarrow> nat \<Rightarrow> nat \<Rightarrow> exporter" where
  \<comment> \<open>the exporter after the slots at positions below \<open>m\<close> have been added, for \<open>0 < m\<close>:
      the full documents are written, the current one is open\<close>
  "seq_state s k m =
     s\<lparr>pdf := Some (card_document s (((m - 1) div k) * k) m),
       file_num := file_num s + int ((m - 1) div k),
       outputs := outputs s
         @ map (\<lambda>j. (document_name s j, card_document s (j * k) (j * k + k)))
             [0..<(m - 1) div k]\<rparr>"

subsection \<open>Reading the output of identify\<close>




subsection \<open>Fronts that are already normalised\<close>

definition jpg_front :: "exporter \<Rightarrow> int \<Rightarrow> bool" where
  \<comment> \<open>the slot is in the mapping and its front path ends in \<open>jpg\<close>\<close>
  "jpg_front s k =
     (case map_of (paths_by_slot s) k of
        None \<Rightarrow> False
      | Some t \<Rightarrow> py_endswith (snd t) ''jpg'')"

definition reshaping_env :: env where
  \<comment> \<open>\<open>identify\<close> always reports 986 by 1377 pixels; a \<open>magick\<close> command writes
      \<open>card.jpg\<close> with the bytes of \<open>card.png\<close>; the command of \<open>cut_and_reshape\<close> marks
      \<open>card.jpg\<close> as shaved once more\<close>
  "reshaping_env =
     \<lparr>run = (\<lambda>command fs.
               if take 8 command = ''identify'' then (example_identify_output 986 1377, fs)
               else if take 6 command = ''magick''
               then ([], fs(''card.jpg'' := fs ''card.png''))
               else if take 14 command = ''mogrify -shave''
               then ([], fs(''card.jpg'' := map_option (\<lambda>bytes. bytes @ ''+shaved'')
                                               (fs ''card.jpg'')))
               else ([], fs)),
      download_images = (\<lambda>cards fs. (cards, fs))\<rparr>"

definition one_card_exporter :: exporter where
  "one_card_exporter =
     (new_exporter \<lparr>fronts = [\<lparr>slots = [0], file_path = ''card.png''\<rparr>],
                     backs = [\<lparr>slots = [0], file_path = ''back.jpg''\<rparr>]\<rparr>)
       \<lparr>paths_by_slot := [(0, ''back.jpg'', ''card.png'')],
        files := [''card.png'' \<mapsto> ''orig'']\<rparr>"

section \<open>Properties\<close>

lemma round_half_even_ge: "of_int m \<le> y \<Longrightarrow> m \<le> round_half_even y"
proof -
  assume "of_int m \<le> y"
  then have "m \<le> \<lfloor>y\<rfloor>" by (simp add: le_floor_iff)
  then show ?thesis unfolding round_half_even_def Let_def by auto
qed

lemma round_half_even_le: "y \<le> of_int m \<Longrightarrow> round_half_even y \<le> m"
  unfolding round_half_even_def Let_def
  by (auto simp: floor_le_iff)

lemma round_half_even_of_int: "round_half_even (of_int m) = m"
  by (simp add: round_half_even_def)

lemma float_exponent_le: 
  assumes "0 < x" shows "2 powi (float_exponent x) \<le> x"
proof (cases "1 \<le> x")
  case True
  then have f: "0 < \<lfloor>x\<rfloor>" by simp
  then have b: "1 \<le> bitlen \<lfloor>x\<rfloor>" using bitlen_eq_zero_iff[of "\<lfloor>x\<rfloor>"] bitlen_nonneg[of "\<lfloor>x\<rfloor>"] by linarith
  have "(2::int) ^ nat (bitlen \<lfloor>x\<rfloor> - 1) \<le> \<lfloor>x\<rfloor>" using bitlen_bounds[OF f] by simp
  then have "(of_int ((2::int) ^ nat (bitlen \<lfloor>x\<rfloor> - 1)) :: rat) \<le> of_int \<lfloor>x\<rfloor>"
    by (simp only: of_int_le_iff)
  also have "\<dots> \<le> x" by simp
  finally have "(2::rat) ^ nat (bitlen \<lfloor>x\<rfloor> - 1) \<le> x" by simp
  moreover have "(2::rat) powi (bitlen \<lfloor>x\<rfloor> - 1) = 2 ^ nat (bitlen \<lfloor>x\<rfloor> - 1)"
    using b by (simp add: power_int_def)
  ultimately show ?thesis using True by (simp add: float_exponent_def)
next
  case False
  define n where "n = \<lceil>1 / x\<rceil>"
  define j where "j = bitlen (n - 1)"
  from False assms have "1 < 1 / x" by simp
  then have n2: "2 \<le> n" unfolding n_def by (simp add: le_ceiling_iff)
  then have pos: "0 < n - 1" by simp
  have j0: "0 \<le> j" unfolding j_def by (rule bitlen_nonneg)
  have "n - 1 < 2 ^ nat j" using bitlen_bounds[OF pos] unfolding j_def by simp
  then have "n \<le> 2 ^ nat j" by simp
  then have "(of_int n :: rat) \<le> of_int (2 ^ nat j)" by (simp only: of_int_le_iff)
  then have "(of_int n :: rat) \<le> 2 ^ nat j" by simp
  moreover have "1 / x \<le> of_int n" unfolding n_def by simp
  ultimately have "1 / x \<le> 2 ^ nat j" by linarith
  then have "1 \<le> 2 ^ nat j * x" using assms by (simp add: pos_divide_le_eq mult.commute)
  then have "1 / 2 ^ nat j \<le> x" by (simp add: pos_divide_le_eq mult.commute)
  moreover have "(2::rat) powi (- j) = 1 / 2 ^ nat j"
    using j0 by (cases "j = 0") (simp_all add: power_int_def field_simps)
  ultimately show ?thesis using False by (simp add: float_exponent_def n_def j_def)
qed

lemma round_to_double_ge:
  assumes "x \<noteq> 0" and "a \<le> x"
    and "a = of_int m * 2 powi (max (float_exponent \<bar>x\<bar>) (- 1022) - 52)"
  shows "a \<le> round_to_double x"
proof -
  define u :: rat where "u = 2 powi (max (float_exponent \<bar>x\<bar>) (- 1022) - 52)"
  have u: "0 < u" unfolding u_def by simp
  have "of_int m * u \<le> x" using assms unfolding u_def by simp
  then have "of_int m \<le> x / u" using u by (simp add: pos_le_divide_eq)
  then have "m \<le> round_half_even (x / u)" by (rule round_half_even_ge)
  then have "(of_int m :: rat) \<le> of_int (round_half_even (x / u))" by (simp only: of_int_le_iff)
  then have "of_int m * u \<le> of_int (round_half_even (x / u)) * u"
    using u by (simp only: mult_le_cancel_right_pos)
  then show ?thesis using assms(1,3) unfolding round_to_double_def Let_def u_def by simp
qed

lemma round_to_double_le:
  assumes "x \<noteq> 0" and "x \<le> a"
    and "a = of_int m * 2 powi (max (float_exponent \<bar>x\<bar>) (- 1022) - 52)"
  shows "round_to_double x \<le> a"
proof -
  define u :: rat where "u = 2 powi (max (float_exponent \<bar>x\<bar>) (- 1022) - 52)"
  have u: "0 < u" unfolding u_def by simp
  have "x \<le> of_int m * u" using assms unfolding u_def by simp
  then have "x / u \<le> of_int m" using u by (simp add: pos_divide_le_eq)
  then have "round_half_even (x / u) \<le> m" by (rule round_half_even_le)
  then have "(of_int (round_half_even (x / u)) :: rat) \<le> of_int m" by (simp only: of_int_le_iff)
  then have "of_int (round_half_even (x / u)) * u \<le> of_int m * u"
    using u by (simp only: mult_le_cancel_right_pos)
  then show ?thesis using assms(1,3) unfolding round_to_double_def Let_def u_def by simp
qed

lemma float_exponent_less:
  assumes "0 < x" and "x < 2 ^ n"
  shows "float_exponent x < int n"
proof (rule ccontr)
  assume "\<not> float_exponent x < int n"
  then have "int n \<le> float_exponent x" by simp
  then have "(2::rat) powi (int n) \<le> 2 powi (float_exponent x)"
    by (intro power_int_increasing) simp_all
  also have "\<dots> \<le> x" using assms(1) by (rule float_exponent_le)
  finally show False using assms(2) by simp
qed

lemma truediv_6_bounds:
  assumes "i < 2 ^ 50"
  shows "of_nat (i div 6) \<le> round_to_double (of_nat i / 6)
         \<and> round_to_double (of_nat i / 6) \<le> of_nat (i div 6) + 7 / 8"
proof (cases "i = 0")
  case True
  then show ?thesis by (simp add: round_to_double_def)
next
  case False
  define x :: rat where "x = of_nat i / 6"
  define q where "q = i div 6"
  define e where "e = max (float_exponent \<bar>x\<bar>) (- 1022)"
  define d where "d = nat (52 - e)"
  have xpos: "0 < x" using False by (simp add: x_def)
  have "(of_nat i :: rat) < of_nat (2 ^ 50)" using assms by (simp only: of_nat_less_iff)
  then have "x < 2 ^ 48" unfolding x_def by simp
  then have "float_exponent x < 48" using float_exponent_less[OF xpos, of 48] by simp
  then have e47: "e \<le> 47" unfolding e_def using xpos by simp
  then have d5: "5 \<le> d" unfolding d_def by simp
  have u: "(2::rat) powi (e - 52) = 1 / 2 ^ d"
    using e47 unfolding d_def by (simp add: power_int_def field_simps)
  have qx: "of_nat q \<le> x"
  proof -
    have "q * 6 \<le> i" unfolding q_def by simp
    then have "(of_nat (q * 6) :: rat) \<le> of_nat i" by (simp only: of_nat_le_iff)
    then show ?thesis unfolding x_def by simp
  qed
  have xq: "x \<le> of_nat q + 7 / 8"
  proof -
    have "i mod 6 < 6" by simp
    then have "i \<le> q * 6 + 5" unfolding q_def using div_mult_mod_eq[of i 6] by linarith
    then have "(of_nat i :: rat) \<le> of_nat (q * 6 + 5)" by (simp only: of_nat_le_iff)
    then show ?thesis unfolding x_def by simp
  qed
  have g1: "(of_nat q :: rat) = of_int (int q * 2 ^ d) * 2 powi (e - 52)"
    unfolding u by simp
  have "d = (d - 3) + 3" using d5 by simp
  then have "(2::rat) ^ d = 2 ^ (d - 3) * 2 ^ 3" by (metis power_add)
  then have g2: "(of_nat q + 7 / 8 :: rat) = of_int ((8 * int q + 7) * 2 ^ (d - 3)) * 2 powi (e - 52)"
    unfolding u by (simp add: field_simps)
  have xne: "x \<noteq> 0" using xpos by simp
  have "of_nat q \<le> round_to_double x"
    using round_to_double_ge[OF xne qx] g1 unfolding e_def by blast
  moreover have "round_to_double x \<le> of_nat q + 7 / 8"
    using round_to_double_le[OF xne xq] g2 unfolding e_def by blast
  ultimately show ?thesis unfolding x_def q_def by simp
qed

lemma float_of_int_3: "float_of_int 3 = 3"
  by code_simp

lemma floor_div3: "\<lfloor>(r::rat) / 3\<rfloor> = \<lfloor>r\<rfloor> div 3"
  by linarith

lemma a3_x_small: "\<forall>c \<in> set [0..<6]. a3_x c = of_nat (20 + c * 63) + of_nat c / 2"
  by code_simp

lemma a3_x_eq: "a3_x i = of_nat (20 + (i mod 6) * 63) + of_nat (i mod 6) / 2"
proof -
  have "a3_x i = a3_x (i mod 6)" by (simp add: a3_x_def)
  moreover have "i mod 6 \<in> set [0..<6]" by simp
  ultimately show ?thesis using a3_x_small by simp
qed

lemma a3_y_small:
  "\<forall>r \<in> set [0..<3]. fadd (float_of_int (top_mm + int r * image_h)) (fmul (float_of_int (int r)) gap)
      = of_nat (15 + r * 88) + of_nat r / 2"
  by code_simp

lemma a3_row_eq:
  assumes "i < 2 ^ 50"
  shows "a3_row i = Inr (int (i div 6 mod 3))"
proof -
  define r where "r = round_to_double (of_nat i / 6)"
  define q where "q = i div 6"
  have lo: "of_nat q \<le> r" and hi: "r \<le> of_nat q + 7 / 8"
    using truediv_6_bounds[OF assms] unfolding r_def q_def by simp_all
  have r0: "0 \<le> r" using lo of_nat_0_le_iff[of q, where 'a = rat] by linarith
  have "q \<le> i" unfolding q_def by simp
  then have "q < 2 ^ 50" using assms by simp
  then have "(of_nat q :: rat) < of_nat (2 ^ 50)" by (simp only: of_nat_less_iff)
  then have "r < 2 ^ 51" using hi by simp
  also have "(2::rat) ^ 51 \<le> 2 ^ 1024" by (rule power_increasing) simp_all
  finally have small: "\<not> 2 ^ 1024 \<le> \<bar>r\<bar>" using r0 by simp
  have div: "py_truediv (int i) 6 = Inr r"
    using small unfolding py_truediv_def r_def Let_def by simp
  have fl: "\<lfloor>r\<rfloor> = int q"
    using lo hi by (intro floor_unique) simp_all
  define m where "m = r - 3 * of_int \<lfloor>r / 3\<rfloor>"
  have m0: "0 \<le> m" unfolding m_def
    using of_int_floor_le[of "r / 3"] by simp
  have md: "py_float_mod r (float_of_int 3) = Inr m"
    using r0 m0 unfolding py_float_mod_def float_of_int_3 m_def Let_def by simp
  have "\<lfloor>m\<rfloor> = \<lfloor>r\<rfloor> - 3 * \<lfloor>r / 3\<rfloor>"
    unfolding m_def by (metis floor_diff_of_int of_int_mult of_int_numeral)
  also have "\<dots> = int q mod 3" unfolding floor_div3 fl by (simp add: minus_mult_div_eq_mod)
  finally have "py_int_of_float m = int (q mod 3)"
    using m0 by (simp add: py_int_of_float_def zmod_int)
  then show ?thesis by (simp add: a3_row_def div md q_def)
qed

lemma a3_y_eq:
  assumes "i < 2 ^ 50"
  shows "a3_y i = Inr (of_nat (15 + (i div 6 mod 3) * 88) + of_nat (i div 6 mod 3) / 2)"
proof -
  have "i div 6 mod 3 \<in> set [0..<3]" by simp
  then show ?thesis using a3_y_small by (simp add: a3_y_def a3_row_eq[OF assms])
qed

lemma pdf_call_Some [simp]:
  "pdf s = Some p \<Longrightarrow> pdf_call c s = Inr (s\<lparr>pdf := Some (p\<lparr>calls := calls p @ [c]\<rparr>)\<rparr>)"
  by (simp add: pdf_call_def)

lemma pdf_call_None [simp]: "pdf s = None \<Longrightarrow> pdf_call c s = Inl (AttributeError, s)"
  by (simp add: pdf_call_def)

lemma pdf_calls_Some:
  "pdf s = Some p \<Longrightarrow> pdf_calls cs s = Inr (s\<lparr>pdf := Some (p\<lparr>calls := calls p @ cs\<rparr>)\<rparr>)"
  by (induction cs arbitrary: s p) simp_all

lemma add_a3_page_Some:
  "pdf s = Some p \<Longrightarrow>
   add_a3_page s = Inr (s\<lparr>pdf := Some (p\<lparr>calls := calls p @ AddPage # a3_cut_guides\<rparr>)\<rparr>)"
  by (simp add: add_a3_page_def pdf_calls_Some)

lemma save_file_Some:
  "pdf s = Some p \<Longrightarrow>
   save_file s = Inr (s\<lparr>outputs := outputs s @ [(save_path s @ py_str_int (file_num s) @ ''.pdf'', p)]\<rparr>)"
  by (simp add: save_file_def)

lemma a3_image_eq:
  assumes "i < 2 ^ 50"
  shows "a3_y i = Inr y \<Longrightarrow> Image f (a3_x i) y (of_int image_w) (of_int image_h) = a3_place i f"
  using a3_y_eq[OF assms] by (simp add: a3_place_def a3_x_eq image_w_def image_h_def)

lemma export_a3_loop_calls:
  assumes "pdf s = Some p"
    and "\<forall>k \<in> set ks. map_of (paths_by_slot s) k \<noteq> None"
    and "i + length ks \<le> 2 ^ 50"
  shows "export_a3_loop s i ks =
         Inr (s\<lparr>pdf := Some (p\<lparr>calls := calls p @
                concat (map (\<lambda>j. (if 0 < i + j \<and> (i + j) mod 18 = 0 then AddPage # a3_cut_guides else [])
                                  @ [a3_place (i + j) (snd (the (map_of (paths_by_slot s) (ks ! j))))])
                          [0..<length ks])\<rparr>)\<rparr>)"
  using assms
proof (induction ks arbitrary: s p i)
  case Nil
  then show ?case by simp
next
  case (Cons k ks)
  from Cons.prems(2) obtain t where t: "map_of (paths_by_slot s) k = Some t" by auto
  have i50: "i < 2 ^ 50" using Cons.prems(3) by simp
  define pre where "pre = (if 0 < i \<and> i mod 18 = 0 then AddPage # a3_cut_guides else [])"
  define s1 where "s1 = s\<lparr>pdf := Some (p\<lparr>calls := calls p @ pre\<rparr>)\<rparr>"
  have step1: "(if 0 < i \<and> i mod 18 = 0 then add_a3_page s else Inr s) = Inr s1"
    using Cons.prems(1) by (simp add: add_a3_page_Some s1_def pre_def)
  define s2 where "s2 = s\<lparr>pdf := Some (p\<lparr>calls := calls p @ pre @ [a3_place i (snd t)]\<rparr>)\<rparr>"
  obtain yv where y: "a3_y i = Inr yv" using a3_y_eq[OF i50] by blast
  have step2: "pdf_call (Image (snd t) (a3_x i) yv (of_int image_w) (of_int image_h)) s1 = Inr s2"
    using a3_image_eq[OF i50 y, of "snd t"] by (simp add: s1_def s2_def)
  have unfold: "export_a3_loop s i (k # ks) = export_a3_loop s2 (Suc i) ks"
    by (simp only: export_a3_loop.simps t option.case step1 sum.case y step2 Suc_eq_plus1)
  have ih: "export_a3_loop s2 (Suc i) ks =
         Inr (s2\<lparr>pdf := Some ((p\<lparr>calls := calls p @ pre @ [a3_place i (snd t)]\<rparr>)\<lparr>calls := calls (p\<lparr>calls := calls p @ pre @ [a3_place i (snd t)]\<rparr>) @
                concat (map (\<lambda>j. (if 0 < Suc i + j \<and> (Suc i + j) mod 18 = 0 then AddPage # a3_cut_guides else [])
                                  @ [a3_place (Suc i + j) (snd (the (map_of (paths_by_slot s2) (ks ! j))))])
                          [0..<length ks])\<rparr>)\<rparr>)"
    using Cons.prems by (intro Cons.IH) (simp_all add: s2_def)
  show ?case
    unfolding unfold ih
    by (simp add: map_upt_Suc s2_def pre_def t del: upt_Suc)
qed

lemma map_of_sorted_keys:
  "k \<in> set (sort (map fst ps)) \<Longrightarrow> map_of ps k \<noteq> None"
  by (simp add: map_of_eq_None_iff)

lemma a3_calls_shift:
  "0 < n \<Longrightarrow>
   (AddPage # a3_cut_guides) @
     concat (map (\<lambda>j. (if 0 < j \<and> j mod 18 = 0 then AddPage # a3_cut_guides else []) @ [G j]) [0..<n])
   = concat (map (\<lambda>j. (if j mod 18 = 0 then AddPage # a3_cut_guides else []) @ [G j]) [0..<n])"
proof -
  assume "0 < n"
  then obtain m where n: "n = Suc m" by (cases n) auto
  have "map (\<lambda>j. (if 0 < Suc j \<and> Suc j mod 18 = 0 then AddPage # a3_cut_guides else []) @ [G (Suc j)]) [0..<m]
      = map (\<lambda>j. (if Suc j mod 18 = 0 then AddPage # a3_cut_guides else []) @ [G (Suc j)]) [0..<m]"
    by simp
  then show ?thesis unfolding n by (simp add: map_upt_Suc del: upt_Suc)
qed

lemma export_a3_calls:
  assumes "paths_by_slot s \<noteq> []" and "length (paths_by_slot s) \<le> 2 ^ 50"
  shows "export_a3 s =
         Inr (s\<lparr>pdf := Some (a3_document (fronts_in_order s)),
                outputs := outputs s @ [(save_path s @ py_str_int (file_num s) @ ''.pdf'',
                                         a3_document (fronts_in_order s))]\<rparr>)"
proof -
  define p0 where "p0 = \<lparr>orientation = ''L'', unit = ''mm'', format = NamedFormat ''A3'', calls = []\<rparr>"
  define s1 where "s1 = s\<lparr>pdf := Some (p0\<lparr>calls := AddPage # a3_cut_guides\<rparr>)\<rparr>"
  define ks where "ks = sort (map fst (paths_by_slot s))"
  have len: "length ks = length (paths_by_slot s)" unfolding ks_def by simp
  have pg: "add_a3_page (generate_pdf_a3 s) = Inr s1"
    by (simp add: add_a3_page_Some[of _ p0] generate_pdf_a3_def p0_def s1_def)
  have keys: "\<forall>k \<in> set ks. map_of (paths_by_slot s1) k \<noteq> None"
    unfolding ks_def s1_def by (simp add: map_of_eq_None_iff)
  have n0: "0 < length ks" using assms(1) len by simp
  have loop: "export_a3_loop s1 0 ks =
      Inr (s1\<lparr>pdf := Some ((p0\<lparr>calls := AddPage # a3_cut_guides\<rparr>)\<lparr>calls := calls (p0\<lparr>calls := AddPage # a3_cut_guides\<rparr>) @
                concat (map (\<lambda>j. (if 0 < 0 + j \<and> (0 + j) mod 18 = 0 then AddPage # a3_cut_guides else [])
                                  @ [a3_place (0 + j) (snd (the (map_of (paths_by_slot s1) (ks ! j))))])
                          [0..<length ks])\<rparr>)\<rparr>)"
    using keys assms(2) len by (intro export_a3_loop_calls) (simp_all add: s1_def)
  have fs: "fronts_in_order s = map (\<lambda>k. snd (the (map_of (paths_by_slot s) k))) ks"
    by (simp add: fronts_in_order_def slots_in_order_def ks_def)
  have calls: "(AddPage # a3_cut_guides) @
     concat (map (\<lambda>j. (if 0 < j \<and> j mod 18 = 0 then AddPage # a3_cut_guides else [])
                   @ [a3_place j (snd (the (map_of (paths_by_slot s) (ks ! j))))]) [0..<length ks])
      = a3_calls (fronts_in_order s)"
  proof -
    have eq: "map (\<lambda>j. (if j mod 18 = 0 then AddPage # a3_cut_guides else [])
                   @ [a3_place j (snd (the (map_of (paths_by_slot s) (ks ! j))))]) [0..<length ks]
        = map (\<lambda>j. (if j mod 18 = 0 then AddPage # a3_cut_guides else [])
                   @ [a3_place j (map (\<lambda>k. snd (the (map_of (paths_by_slot s) k))) ks ! j)]) [0..<length ks]"
      by (rule map_cong) simp_all
    show ?thesis unfolding a3_calls_shift[OF n0] a3_calls_def fs length_map eq by (rule refl)
  qed
  have ps1: "paths_by_slot s1 = paths_by_slot s" by (simp add: s1_def)
  show ?thesis
    unfolding export_a3_def pg sum.case ps1 ks_def[symmetric] loop
    using calls by (simp add: save_file_Some s1_def a3_document_def p0_def)
qed

lemma fpdf_pages_append: "fpdf_pages (xs @ ys) = foldl page_step (fpdf_pages xs) ys"
  by (simp add: fpdf_pages_def)

lemma page_step_AddPage: "page_step ps AddPage = ps @ [[]]"
  by (simp add: page_step_def)

lemma page_step_draw: "c \<noteq> AddPage \<Longrightarrow> page_step (ps @ [pg]) c = ps @ [pg @ [c]]"
  by (cases c) (simp_all add: page_step_def)

lemma foldl_page_step_draws:
  "AddPage \<notin> set ds \<Longrightarrow> foldl page_step (ps @ [pg]) ds = ps @ [pg @ ds]"
  by (induction ds arbitrary: pg) (auto simp: page_step_draw)

lemma a3_cut_guides_draws: "AddPage \<notin> set a3_cut_guides"
  by (auto simp: a3_cut_guides_def vline_def hline_def)

lemma a3_place_draw: "a3_place i f \<noteq> AddPage"
  by (simp add: a3_place_def)

lemma sheet_pages_upto:
  fixes P :: "nat \<Rightarrow> fpdf_call"
  assumes G: "AddPage \<notin> set G" and P: "\<And>j. P j \<noteq> AddPage"
  shows "fpdf_pages (concat (map (\<lambda>j. (if j mod 18 = 0 then AddPage # G else []) @ [P j]) [0..<n]))
         = map (\<lambda>p. G @ map P [18 * p..<18 * p + 18]) [0..<n div 18]
           @ (if n mod 18 = 0 then [] else [G @ map P [18 * (n div 18)..<n]])"
proof (induction n)
  case 0
  show ?case by (simp add: fpdf_pages_def)
next
  case (Suc n)
  define q where "q = n div 18"
  define F where "F = (\<lambda>p. G @ map P [18 * p..<18 * p + 18])"
  define chunk where "chunk = (\<lambda>j. (if j mod 18 = 0 then AddPage # G else []) @ [P j])"
  have IH: "fpdf_pages (concat (map chunk [0..<n]))
         = map F [0..<q] @ (if n mod 18 = 0 then [] else [G @ map P [18 * q..<n]])"
    using Suc.IH unfolding q_def F_def chunk_def .
  have step: "fpdf_pages (concat (map chunk [0..<Suc n]))
         = foldl page_step (fpdf_pages (concat (map chunk [0..<n]))) (chunk n)"
    by (simp add: fpdf_pages_append)
  have goal: "fpdf_pages (concat (map chunk [0..<Suc n]))
         = map F [0..<Suc n div 18]
           @ (if Suc n mod 18 = 0 then [] else [G @ map P [18 * (Suc n div 18)..<Suc n]])"
  proof (cases "n mod 18 = 0")
    case True
    then have a: "Suc n mod 18 \<noteq> 0" "Suc n div 18 = q" "18 * q = n"
      unfolding q_def using mult_div_mod_eq[of 18 n] by (simp_all add: mod_Suc div_Suc)
    have ch: "chunk n = AddPage # (G @ [P n])" using True by (simp add: chunk_def)
    have "AddPage \<notin> set (G @ [P n])" using G P[of n] by auto
    then have "foldl page_step (map F [0..<q] @ [[]]) (G @ [P n]) = map F [0..<q] @ [[] @ G @ [P n]]"
      by (rule foldl_page_step_draws)
    then have "fpdf_pages (concat (map chunk [0..<Suc n])) = map F [0..<q] @ [G @ [P n]]"
      unfolding step IH ch using True by (simp add: page_step_AddPage)
    moreover have "map P [18 * q..<Suc n] = [P n]" unfolding a(3) by simp
    ultimately show ?thesis using a(1,2) by simp
  next
    case False
    then have le: "18 * q \<le> n" unfolding q_def by simp
    have ch: "chunk n = [P n]" using False by (simp add: chunk_def)
    have st: "page_step (map F [0..<q] @ [G @ map P [18 * q..<n]]) (P n)
           = map F [0..<q] @ [(G @ map P [18 * q..<n]) @ [P n]]"
      using P by (rule page_step_draw)
    have up: "map P [18 * q..<Suc n] = map P [18 * q..<n] @ [P n]"
      using le by simp
    have pg: "fpdf_pages (concat (map chunk [0..<Suc n])) = map F [0..<q] @ [G @ map P [18 * q..<Suc n]]"
      unfolding step IH ch up using False st by simp
    show ?thesis
    proof (cases "Suc n mod 18 = 0")
      case True
      then have a: "Suc n div 18 = Suc q" unfolding q_def by (simp add: div_Suc)
      have b: "18 * q + 18 = Suc n"
        using mult_div_mod_eq[of 18 "Suc n"] True a by simp
      have "F q = G @ map P [18 * q..<Suc n]" unfolding F_def b ..
      then show ?thesis unfolding pg a using True by simp
    next
      case nz: False
      then have a: "Suc n div 18 = q" unfolding q_def by (simp add: div_Suc)
      show ?thesis unfolding pg a using nz by simp
    qed
  qed
  then show ?case unfolding q_def F_def chunk_def .
qed

lemma a3_pages:
  "fpdf_pages (a3_calls fs) = map (a3_sheet fs) [0..<(length fs + 17) div 18]"
proof -
  define n where "n = length fs"
  define q where "q = n div 18"
  define r where "r = n mod 18"
  define P where "P = (\<lambda>i. a3_place i (fs ! i))"
  have r18: "r < 18" unfolding r_def by simp
  have nq: "n = 18 * q + r" unfolding q_def r_def by simp
  have full: "min n (18 * p + 18) = 18 * p + 18" if "p < q" for p
  proof -
    from that have "Suc p \<le> q" by simp
    then have "18 * Suc p \<le> 18 * q" by (simp only: mult_le_mono2)
    then show ?thesis using nq by simp
  qed
  have pages: "fpdf_pages (a3_calls fs)
         = map (\<lambda>p. a3_cut_guides @ map P [18 * p..<18 * p + 18]) [0..<q]
           @ (if r = 0 then [] else [a3_cut_guides @ map P [18 * q..<n]])"
    unfolding a3_calls_def n_def[symmetric] P_def q_def r_def
    by (rule sheet_pages_upto[OF a3_cut_guides_draws]) (simp add: a3_place_def)
  have m: "map (\<lambda>p. a3_cut_guides @ map P [18 * p..<18 * p + 18]) [0..<q]
         = map (a3_sheet fs) [0..<q]"
    by (rule map_cong) (simp_all add: a3_sheet_def full n_def[symmetric] P_def)
  show ?thesis
  proof (cases "r = 0")
    case True
    have "(n + 17) div 18 = q"
      by (rule div_nat_eqI) (simp_all add: nq True)
    then show ?thesis using True pages m by (simp add: n_def)
  next
    case False
    have a: "(n + 17) div 18 = Suc q"
      by (rule div_nat_eqI) (use False r18 in \<open>simp_all add: nq\<close>)
    have "min n (18 * q + 18) = n" using r18 by (simp add: nq)
    then have "a3_sheet fs q = a3_cut_guides @ map P [18 * q..<n]"
      by (simp add: a3_sheet_def n_def[symmetric] P_def)
    then show ?thesis using False pages m a by (simp add: n_def)
  qed
qed

subsection \<open>Grid-sheet layout\<close>

text \<open>
  Claim C1. In grid-sheet mode, for a non-empty slot mapping read in ascending slot order,
  \<open>export_a3\<close> returns normally and saves one document whose calls are \<open>a3_calls\<close> of the
  front paths: for the slot at position \<open>i\<close> exactly one image is placed, its front, at
  \<open>x = 20 + (i mod 6) * 63 + (i mod 6) * 1/2\<close> and
  \<open>y = 15 + (i div 6 mod 3) * 88 + (i div 6 mod 3) * 1/2\<close> with size 63 by 88, and a sheet page
  is added before it exactly when \<open>i\<close> is a multiple of 18 (the page for \<open>i = 0\<close> being
  the one added before the loop). Hence sheet page \<open>p\<close> holds the cut guides and the
  positions \<open>18 p\<close> to \<open>18 p + 17\<close>, so position \<open>i\<close> is on page \<open>i div 18\<close>. The float
  expression \<open>int(i / 6 % 3)\<close> is evaluated with rounding to double; it equals
  \<open>i div 6 mod 3\<close> for every slot count up to \<open>2 ^ 50\<close>, which bounds every mapping that
  can occur.
\<close>

theorem grid_sheet_layout:
  assumes "paths_by_slot s \<noteq> []" and "length (paths_by_slot s) \<le> 2 ^ 50"
  shows "export_a3 s =
           Inr (s\<lparr>pdf := Some (a3_document (fronts_in_order s)),
                  outputs := outputs s @ [(save_path s @ py_str_int (file_num s) @ ''.pdf'',
                                           a3_document (fronts_in_order s))]\<rparr>)
         \<and> length (fronts_in_order s) = length (paths_by_slot s)
         \<and> fpdf_pages (calls (a3_document (fronts_in_order s)))
             = map (a3_sheet (fronts_in_order s)) [0..<(length (paths_by_slot s) + 17) div 18]"
proof -
  have "length (fronts_in_order s) = length (paths_by_slot s)"
    by (simp add: fronts_in_order_def slots_in_order_def)
  moreover have "calls (a3_document (fronts_in_order s)) = a3_calls (fronts_in_order s)"
    by (simp add: a3_document_def)
  ultimately show ?thesis
    using export_a3_calls[OF assms] a3_pages[of "fronts_in_order s"] by simp
qed

lemma example_fronts: "fronts_in_order example_exporter = [''front_a.jpg'', ''front_a.jpg'', ''front_b.jpg'']"
  by (simp add: fronts_in_order_def slots_in_order_def example_exporter_def example_paths_def)

theorem grid_sheet_layout_witness:
  "paths_by_slot example_exporter \<noteq> [] \<and> length (paths_by_slot example_exporter) \<le> 2 ^ 50
   \<and> export_a3 example_exporter =
         Inr (example_exporter
                \<lparr>pdf := Some (a3_document [''front_a.jpg'', ''front_a.jpg'', ''front_b.jpg'']),
                 outputs := [(''export/cards/1.pdf'',
                              a3_document [''front_a.jpg'', ''front_a.jpg'', ''front_b.jpg''])]\<rparr>)
   \<and> fpdf_pages (a3_calls [''front_a.jpg'', ''front_a.jpg'', ''front_b.jpg''])
       = [a3_cut_guides @ [Image ''front_a.jpg'' 20 15 63 88,
                           Image ''front_a.jpg'' (167 / 2) 15 63 88,
                           Image ''front_b.jpg'' 147 15 63 88]]"
proof -
  have p: "paths_by_slot example_exporter \<noteq> []" and l: "length (paths_by_slot example_exporter) \<le> 2 ^ 50"
    by (simp_all add: example_exporter_def example_paths_def)
  have sh: "a3_sheet [''front_a.jpg'', ''front_a.jpg'', ''front_b.jpg''] 0
       = a3_cut_guides @ [Image ''front_a.jpg'' 20 15 63 88,
                           Image ''front_a.jpg'' (167 / 2) 15 63 88,
                           Image ''front_b.jpg'' 147 15 63 88]"
    by (simp add: a3_sheet_def a3_place_def upt_rec)
  have o: "outputs example_exporter = []" "save_path example_exporter = ''export/cards/''"
     "file_num example_exporter = 1"
    by (simp_all add: example_exporter_def new_exporter_def)
  have n: "py_str_int 1 = ''1''" by code_simp
  have "(length example_paths + 17) div 18 = 1" by (simp add: example_paths_def)
  moreover have "paths_by_slot example_exporter = example_paths"
    by (simp add: example_exporter_def)
  ultimately show ?thesis
    using grid_sheet_layout[OF p l] p l
    by (simp add: example_fronts o n sh a3_document_def)
qed

lemma pdf_calls_None:
  "pdf s = None \<Longrightarrow> cs \<noteq> [] \<Longrightarrow> pdf_calls cs s = Inl (AttributeError, s)"
  by (cases cs) simp_all

lemma add_image_eq:
  "add_image image_path s =
     (case pdf s of
        None \<Rightarrow> Inl (AttributeError, s)
      | Some p \<Rightarrow>
          Inr (s\<lparr>pdf := Some (p\<lparr>calls := calls p @
                 [AddPage, Image image_path 0 0 (card_width_in_inches s) (card_height_in_inches s)]\<rparr>)\<rparr>))"
  by (cases "pdf s") (simp_all add: add_image_def pdf_calls_None pdf_calls_Some)

lemma add_image_cards_per_file:
  "add_image image_path s = Inr s' \<Longrightarrow> number_of_cards_per_file s' = number_of_cards_per_file s"
  by (auto simp: add_image_eq split: option.splits)

lemma add_image_error: "add_image image_path s = Inl (e, s') \<Longrightarrow> e = AttributeError"
  by (auto simp: add_image_eq split: option.splits)

lemma save_file_error: "save_file s = Inl (e, s') \<Longrightarrow> e = AttributeError"
  by (auto simp: save_file_def split: option.splits)

lemma save_file_cards_per_file:
  "save_file s = Inr s' \<Longrightarrow> number_of_cards_per_file s' = number_of_cards_per_file s"
  by (auto simp: save_file_def split: option.splits)

lemma export_loop_no_zero_division:
  "number_of_cards_per_file s \<noteq> 0 \<Longrightarrow> export_loop s ks = Inl (e, s') \<Longrightarrow> e \<noteq> ZeroDivisionError"
proof (induction ks arbitrary: s)
  case Nil
  then show ?case by simp
next
  case (Cons k ks)
  show ?case
  proof (cases "map_of (paths_by_slot s) k")
    case None
    then show ?thesis using Cons.prems by simp
  next
    case (Some t)
    obtain back_path front_path where t: "t = (back_path, front_path)" by (cases t)
    define start where "start =
      (if k = 0 then Inr (generate_pdf s)
       else if number_of_cards_per_file s = 0 then Inl (ZeroDivisionError, s)
       else if k mod number_of_cards_per_file s = 0
       then (case save_file s of
               Inl e \<Rightarrow> Inl e
             | Inr s1 \<Rightarrow> Inr (generate_pdf (s1\<lparr>file_num := file_num s1 + 1\<rparr>)))
       else Inr s)"
    have unfold: "export_loop s (k # ks) =
      (case start of
         Inl e \<Rightarrow> Inl e
       | Inr s2 \<Rightarrow>
           (case add_image back_path s2 of
              Inl e \<Rightarrow> Inl e
            | Inr s3 \<Rightarrow>
                (case add_image front_path s3 of
                   Inl e \<Rightarrow> Inl e
                 | Inr s4 \<Rightarrow> export_loop s4 ks)))"
      by (simp add: Some t start_def)
    have r: "(case start of
         Inl e \<Rightarrow> Inl e
       | Inr s2 \<Rightarrow>
           (case add_image back_path s2 of
              Inl e \<Rightarrow> Inl e
            | Inr s3 \<Rightarrow>
                (case add_image front_path s3 of
                   Inl e \<Rightarrow> Inl e
                 | Inr s4 \<Rightarrow> export_loop s4 ks))) = Inl (e, s')"
      using Cons.prems(2) unfolding unfold .
    have start_err: "e' = AttributeError" if "start = Inl (e', u)" for e' u
      using that Cons.prems(1) save_file_error
      by (auto simp: start_def split: if_splits sum.splits)
    have start_ok: "number_of_cards_per_file s2 = number_of_cards_per_file s" if "start = Inr s2" for s2
      using that save_file_cards_per_file
      by (auto simp: start_def generate_pdf_def split: if_splits sum.splits)
    show ?thesis
    proof (cases start)
      case (Inl a)
      then show ?thesis using r start_err[of "fst a" "snd a"] by simp
    next
      case s2: (Inr s2)
      show ?thesis
      proof (cases "add_image back_path s2")
        case (Inl a)
        then show ?thesis using r s2 add_image_error[of back_path s2 "fst a" "snd a"]
          by simp
      next
        case s3: (Inr s3)
        show ?thesis
        proof (cases "add_image front_path s3")
          case (Inl a)
          then show ?thesis using r s2 s3 add_image_error[of front_path s3 "fst a" "snd a"]
            by simp
        next
          case s4: (Inr s4)
          have "number_of_cards_per_file s4 \<noteq> 0"
            using Cons.prems(1) start_ok[OF s2] add_image_cards_per_file[OF s3]
              add_image_cards_per_file[OF s4] by simp
          moreover have "export_loop s4 ks = Inl (e, s')"
            using r s2 s3 s4 by simp
          ultimately show ?thesis by (rule Cons.IH)
        qed
      qed
    qed
  qed
qed

lemma export_no_zero_division:
  assumes "number_of_cards_per_file s \<noteq> 0" and "export s = Inl (e, s')"
  shows "e \<noteq> ZeroDivisionError"
proof (cases "export_loop s (sort (map fst (paths_by_slot s)))")
  case (Inl a)
  then have "export_loop s (sort (map fst (paths_by_slot s))) = Inl (e, s')"
    using assms(2) by (simp add: export_def)
  then show ?thesis using assms(1) by (rule export_loop_no_zero_division[rotated])
next
  case (Inr s1)
  then have "save_file s1 = Inl (e, s')" using assms(2) by (simp add: export_def)
  then show ?thesis using save_file_error by blast
qed

subsection \<open>Configuration\<close>

text \<open>
  Claim C9. Whenever \<open>ask_questions\<close> completes, \<open>number_of_cards_per_file\<close> is at least 1:
  the separate-faces choice sets it to 1 and a numeric answer below 1 is clamped to 1.
  Therefore the expression \<open>slot % number_of_cards_per_file\<close> of \<open>export\<close> never raises
  \<open>ZeroDivisionError\<close>, whatever the slot mapping and the rest of the state.
\<close>

theorem cards_per_file_positive:
  assumes "ask_questions a s = Inr s'"
  shows "1 \<le> number_of_cards_per_file s'
         \<and> (\<forall>t u. number_of_cards_per_file t = number_of_cards_per_file s'
                  \<longrightarrow> export t \<noteq> Inl (ZeroDivisionError, u))"
proof -
  have pos: "1 \<le> number_of_cards_per_file s'"
    using assms
    by (auto simp: ask_questions_def split: if_splits sum.splits answer.splits)
  then have "export t \<noteq> Inl (ZeroDivisionError, u)"
    if "number_of_cards_per_file t = number_of_cards_per_file s'" for t u
    using export_no_zero_division[of t ZeroDivisionError u] that by auto
  then show ?thesis using pos by blast
qed


theorem cards_per_file_positive_witness:
  "ask_questions example_answers example_exporter
     = Inr (example_exporter\<lparr>number_of_cards_per_file := 1\<rparr>)
   \<and> 1 \<le> number_of_cards_per_file (example_exporter\<lparr>number_of_cards_per_file := 1\<rparr>)
   \<and> export (example_exporter\<lparr>number_of_cards_per_file := 1\<rparr>)
       \<noteq> Inl (ZeroDivisionError, example_exporter)"
proof -
  have "py_int ''0'' = Inr 0" by code_simp
  then have a: "ask_questions example_answers example_exporter
     = Inr (example_exporter\<lparr>number_of_cards_per_file := 1\<rparr>)"
    by (simp add: ask_questions_def example_answers_def)
  show ?thesis using cards_per_file_positive[OF a] a by simp
qed

lemma new_jpg_path_endswith: "py_endswith (new_jpg_path p) ''jpg''"
  by (simp add: new_jpg_path_def py_endswith_def Let_def)




lemma subprocess_run_commands:
  "commands (snd (subprocess_run E call s)) = commands s @ [call]"
  by (simp add: subprocess_run_def split_beta)


lemma images_havent_been_prepared_cases:
  "(\<exists>e. images_havent_been_prepared E p s = Inl (e, snd (subprocess_run E (Identify p) s)))
   \<or> (\<exists>need_reshape. images_havent_been_prepared E p s
          = Inr ((False, need_reshape, False), snd (subprocess_run E (Identify p) s)))"
  by (auto simp: images_havent_been_prepared_def check_output_def split_beta split: sum.splits)






subsection \<open>Transforms that are never applied\<close>





lemma a3_cut_guides_lines: "list_all (\<lambda>c. case c of DashedLine _ _ _ _ _ _ \<Rightarrow> True | _ \<Rightarrow> False) a3_cut_guides"
  by (auto simp: a3_cut_guides_def vline_def hline_def list_all_iff)

lemma fpdf_pages_one_sheet: "fpdf_pages (AddPage # a3_cut_guides) = [a3_cut_guides]"
  using foldl_page_step_draws[OF a3_cut_guides_draws, of "[]" "[]"]
  by (simp add: fpdf_pages_def page_step_AddPage)

subsection \<open>The empty slot mapping\<close>

text \<open>
  Claim C3, as amended. For the empty slot mapping no layout error is reported in either
  mode. Sequential \<open>export\<close> on an exporter that has no document yet raises
  \<open>AttributeError\<close> at the final \<open>save_file\<close>, having written no document. Grid-sheet
  \<open>export_a3\<close> returns normally and saves one document of a single sheet page that holds
  the cut guides and no image.
\<close>

theorem empty_mapping_exports:
  "(paths_by_slot s = [] \<and> pdf s = None \<longrightarrow> export s = Inl (AttributeError, s))
   \<and> (paths_by_slot s = [] \<longrightarrow>
        export_a3 s =
          Inr (s\<lparr>pdf := Some ((a3_document [])\<lparr>calls := AddPage # a3_cut_guides\<rparr>),
                 outputs := outputs s @ [(save_path s @ py_str_int (file_num s) @ ''.pdf'',
                                          (a3_document [])\<lparr>calls := AddPage # a3_cut_guides\<rparr>)]\<rparr>))
   \<and> fpdf_pages (AddPage # a3_cut_guides) = [a3_cut_guides]
   \<and> list_all (\<lambda>c. case c of DashedLine _ _ _ _ _ _ \<Rightarrow> True | _ \<Rightarrow> False) a3_cut_guides"
proof -
  have seq: "export s = Inl (AttributeError, s)" if "paths_by_slot s = []" "pdf s = None"
    using that by (simp add: export_def save_file_def)
  have grid: "export_a3 s =
          Inr (s\<lparr>pdf := Some ((a3_document [])\<lparr>calls := AddPage # a3_cut_guides\<rparr>),
                 outputs := outputs s @ [(save_path s @ py_str_int (file_num s) @ ''.pdf'',
                                          (a3_document [])\<lparr>calls := AddPage # a3_cut_guides\<rparr>)]\<rparr>)"
    if e: "paths_by_slot s = []"
  proof -
    define p0 where "p0 = \<lparr>orientation = ''L'', unit = ''mm'', format = NamedFormat ''A3'', calls = []\<rparr>"
    define s1 where "s1 = s\<lparr>pdf := Some (p0\<lparr>calls := AddPage # a3_cut_guides\<rparr>)\<rparr>"
    have pg: "add_a3_page (generate_pdf_a3 s) = Inr s1"
      by (simp add: add_a3_page_Some[of _ p0] generate_pdf_a3_def p0_def s1_def)
    have ps: "paths_by_slot s1 = []" using e by (simp add: s1_def)
    show ?thesis
      unfolding export_a3_def pg sum.case ps
      by (simp add: save_file_Some s1_def p0_def a3_document_def)
  qed
  show ?thesis using seq grid fpdf_pages_one_sheet a3_cut_guides_lines by blast
qed


theorem empty_mapping_exports_witness:
  "paths_by_slot empty_exporter = [] \<and> pdf empty_exporter = None
   \<and> export empty_exporter = Inl (AttributeError, empty_exporter)
   \<and> export_a3 empty_exporter =
          Inr (empty_exporter
                 \<lparr>pdf := Some ((a3_document [])\<lparr>calls := AddPage # a3_cut_guides\<rparr>),
                  outputs := [(''export/cards/1.pdf'',
                               (a3_document [])\<lparr>calls := AddPage # a3_cut_guides\<rparr>)]\<rparr>)"
proof -
  have e: "paths_by_slot empty_exporter = []" "pdf empty_exporter = None"
    "outputs empty_exporter = []" "save_path empty_exporter = ''export/cards/''"
    "file_num empty_exporter = 1"
    by (simp_all add: empty_exporter_def new_exporter_def)
  have n: "py_str_int 1 = ''1''" by code_simp
  show ?thesis using empty_mapping_exports[of empty_exporter] e n by simp
qed

theorem empty_mapping_counterexample:
  "export empty_exporter = Inl (AttributeError, empty_exporter)
   \<and> \<not> isl (export_a3 empty_exporter)"
proof -
  have e: "paths_by_slot empty_exporter = []" "pdf empty_exporter = None"
    by (simp_all add: empty_exporter_def new_exporter_def)
  have "export empty_exporter = Inl (AttributeError, empty_exporter)"
    using e by (simp add: export_def save_file_def)
  moreover have "add_a3_page (generate_pdf_a3 empty_exporter)
      = Inr (empty_exporter\<lparr>pdf := Some \<lparr>orientation = ''L'', unit = ''mm'',
                format = NamedFormat ''A3'', calls = AddPage # a3_cut_guides\<rparr>\<rparr>)"
    by (simp add: add_a3_page_def generate_pdf_a3_def pdf_calls_Some)
  then have "\<not> isl (export_a3 empty_exporter)"
    using e by (simp add: export_a3_def save_file_def)
  ultimately show ?thesis by simp
qed

lemma map_of_by_slots_keys: "k \<in> set (map fst al) \<Longrightarrow> map_of al k \<noteq> None"
  by (simp add: map_of_eq_None_iff)

lemma collect_paths_map_of:
  assumes "map_of B 0 = Some d" and "\<forall>k \<in> set ks. map_of F k \<noteq> None"
  shows "\<exists>paths. collect_paths B F acc ks = Inr paths
          \<and> (\<forall>k. map_of paths k =
                  (if k \<in> set ks
                   then Some (case map_of B k of None \<Rightarrow> d | Some back \<Rightarrow> back, the (map_of F k))
                   else map_of acc k))"
  using assms(2)
proof (induction ks arbitrary: acc)
  case Nil
  then show ?case by simp
next
  case (Cons x xs)
  then obtain front where f: "map_of F x = Some front" by auto
  define acc1 where "acc1 = AList.update x (case map_of B x of None \<Rightarrow> d | Some back \<Rightarrow> back, front) acc"
  have step: "collect_paths B F acc (x # xs) = collect_paths B F acc1 xs"
    by (simp add: assms(1) f acc1_def)
  obtain paths where p: "collect_paths B F acc1 xs = Inr paths"
    and m: "\<And>k. map_of paths k =
                  (if k \<in> set xs
                   then Some (case map_of B k of None \<Rightarrow> d | Some back \<Rightarrow> back, the (map_of F k))
                   else map_of acc1 k)"
    using Cons.IH[of acc1] Cons.prems by auto
  have "map_of paths k =
                  (if k \<in> set (x # xs)
                   then Some (case map_of B k of None \<Rightarrow> d | Some back \<Rightarrow> back, the (map_of F k))
                   else map_of acc k)" for k
    unfolding m by (simp add: acc1_def update_conv' f)
  then show ?case unfolding step using p by blast
qed

lemma download_and_collect_images_eq:
  "download_and_collect_images E s =
     (case collect_paths (by_slots (acquired_backs E s)) (by_slots (acquired_fronts E s)) []
             (map fst (by_slots (acquired_fronts E s))) of
        Inl e \<Rightarrow> Inl (e, s\<lparr>order := \<lparr>fronts = acquired_fronts E s, backs = acquired_backs E s\<rparr>,
                           files := snd (download_images E (backs (order s))
                                          (snd (download_images E (fronts (order s)) (files s))))\<rparr>)
      | Inr paths \<Rightarrow>
          Inr (s\<lparr>order := \<lparr>fronts = acquired_fronts E s, backs = acquired_backs E s\<rparr>,
                 files := snd (download_images E (backs (order s))
                                (snd (download_images E (fronts (order s)) (files s)))),
                 paths_by_slot := paths\<rparr>))"
  by (simp add: download_and_collect_images_def acquired_fronts_def acquired_backs_def
        split_beta Let_def split: sum.splits)

subsection \<open>The fallback back image\<close>

text \<open>
  Claim C4, as amended. The fallback of \<open>download_and_collect_images\<close> is the back stored
  for slot 0. Whenever slot 0 has a back, collecting succeeds, and every slot that has a
  front but no back of its own is given the path of the back of slot 0 together with its
  front path.
\<close>

theorem slot0_back_fallback:
  assumes "map_of (by_slots (acquired_backs E s)) 0 = Some slot0_back"
    and "map_of (by_slots (acquired_fronts E s)) slot = Some front"
    and "map_of (by_slots (acquired_backs E s)) slot = None"
  shows "\<not> isl (download_and_collect_images E s)
         \<and> map_of (paths_by_slot (projr (download_and_collect_images E s))) slot
             = Some (slot0_back, front)"
proof -
  define B where "B = by_slots (acquired_backs E s)"
  define F where "F = by_slots (acquired_fronts E s)"
  have keys: "\<forall>k \<in> set (map fst F). map_of F k \<noteq> None"
    by (simp add: map_of_eq_None_iff)
  have mem: "slot \<in> set (map fst F)"
    using assms(2) unfolding F_def by (metis map_of_eq_None_iff option.distinct(1) set_map)
  have b0: "map_of B 0 = Some slot0_back" using assms(1) unfolding B_def .
  from collect_paths_map_of[OF b0 keys, of "[]"]
  obtain paths where p: "collect_paths B F [] (map fst F) = Inr paths"
    and all: "\<forall>k. map_of paths k =
                  (if k \<in> set (map fst F)
                   then Some (case map_of B k of None \<Rightarrow> slot0_back | Some back \<Rightarrow> back,
                              the (map_of F k))
                   else map_of [] k)"
    by blast
  have m: "map_of paths slot = Some (case map_of B slot of None \<Rightarrow> slot0_back | Some back \<Rightarrow> back,
                                       the (map_of F slot))"
    using all mem by simp
  show ?thesis
    unfolding download_and_collect_images_eq B_def[symmetric] F_def[symmetric] p
    using m assms(2,3) by (simp add: B_def F_def)
qed

lemma custom_back_order_slots:
  "by_slots (acquired_backs example_env (new_exporter custom_back_order))
     = [(0, ''custom_back.png''), (2, ''default_back.png'')]"
  "by_slots (acquired_fronts example_env (new_exporter custom_back_order))
     = [(0, ''front.png''), (1, ''front.png''), (2, ''front.png'')]"
  by (simp_all add: by_slots_def acquired_backs_def acquired_fronts_def example_env_def
        new_exporter_def custom_back_order_def)

theorem slot0_back_fallback_witness:
  "map_of (by_slots (acquired_backs example_env (new_exporter custom_back_order))) 0
     = Some ''custom_back.png''
   \<and> map_of (by_slots (acquired_fronts example_env (new_exporter custom_back_order))) 1
     = Some ''front.png''
   \<and> map_of (by_slots (acquired_backs example_env (new_exporter custom_back_order))) 1 = None
   \<and> \<not> isl (download_and_collect_images example_env (new_exporter custom_back_order))
   \<and> map_of (paths_by_slot (projr (download_and_collect_images example_env
                                       (new_exporter custom_back_order)))) 1
       = Some (''custom_back.png'', ''front.png'')"
proof -
  have a: "map_of (by_slots (acquired_backs example_env (new_exporter custom_back_order))) 0
     = Some ''custom_back.png''"
    and b: "map_of (by_slots (acquired_fronts example_env (new_exporter custom_back_order))) 1
     = Some ''front.png''"
    and c: "map_of (by_slots (acquired_backs example_env (new_exporter custom_back_order))) 1 = None"
    by (simp_all add: custom_back_order_slots)
  show ?thesis using slot0_back_fallback[OF a b c] a b c by simp
qed

theorem default_back_counterexample:
  "isl (download_and_collect_images example_env (new_exporter backless_first_order))
   \<and> fst (projl (download_and_collect_images example_env (new_exporter backless_first_order)))
       = KeyError
   \<and> map_of (paths_by_slot (projr (download_and_collect_images example_env
                                       (new_exporter custom_back_order)))) 1
       = Some (''custom_back.png'', ''front.png'')
   \<and> map_of (paths_by_slot (projr (download_and_collect_images example_env
                                       (new_exporter custom_back_order)))) 2
       = Some (''default_back.png'', ''front.png'')"
proof -
  have B: "by_slots (acquired_backs example_env (new_exporter backless_first_order))
     = [(1, ''default_back.png'')]"
    and F: "by_slots (acquired_fronts example_env (new_exporter backless_first_order))
     = [(0, ''front.png''), (1, ''front.png'')]"
    by (simp_all add: by_slots_def acquired_backs_def acquired_fronts_def example_env_def
        new_exporter_def backless_first_order_def)
  have 1: "isl (download_and_collect_images example_env (new_exporter backless_first_order))
   \<and> fst (projl (download_and_collect_images example_env (new_exporter backless_first_order)))
       = KeyError"
    unfolding download_and_collect_images_eq B F by simp
  have 2: "map_of (paths_by_slot (projr (download_and_collect_images example_env
                                       (new_exporter custom_back_order)))) 1
       = Some (''custom_back.png'', ''front.png'')
   \<and> map_of (paths_by_slot (projr (download_and_collect_images example_env
                                       (new_exporter custom_back_order)))) 2
       = Some (''default_back.png'', ''front.png'')"
    unfolding download_and_collect_images_eq custom_back_order_slots by simp
  show ?thesis using 1 2 by simp
qed

lemma div_pred_aligned:
  fixes k m :: nat
  assumes "0 < k" and "0 < m" and "m mod k = 0"
  shows "m div k = Suc ((m - 1) div k)" and "((m - 1) div k) * k + k = m"
proof -
  obtain m' where m: "m = Suc m'" using assms(2) by (cases m) auto
  show a: "m div k = Suc ((m - 1) div k)"
    using assms(3) unfolding m by (simp add: div_Suc)
  have "(m div k) * k = m" using assms(3) by (simp add: mod_eq_0_iff_dvd)
  then show "((m - 1) div k) * k + k = m" unfolding a by simp
qed

lemma div_pred_unaligned:
  fixes k m :: nat
  assumes "0 < m" and "m mod k \<noteq> 0"
  shows "m div k = (m - 1) div k"
proof -
  obtain m' where m: "m = Suc m'" using assms(1) by (cases m) auto
  show ?thesis using assms(2) unfolding m by (simp add: div_Suc)
qed

lemma seq_state_fields [simp]:
  "paths_by_slot (seq_state s k m) = paths_by_slot s"
  "number_of_cards_per_file (seq_state s k m) = number_of_cards_per_file s"
  "card_width_in_inches (seq_state s k m) = card_width_in_inches s"
  "card_height_in_inches (seq_state s k m) = card_height_in_inches s"
  "save_path (seq_state s k m) = save_path s"
  "file_num (seq_state s k m) = file_num s + int ((m - 1) div k)"
  "pdf (seq_state s k m) = Some (card_document s (((m - 1) div k) * k) m)"
  by (simp_all add: seq_state_def)

lemma add_two_images:
  assumes "pdf t = Some p"
  shows "(case add_image b t of
            Inl e \<Rightarrow> Inl e
          | Inr s3 \<Rightarrow> (case add_image f s3 of Inl e \<Rightarrow> Inl e | Inr s4 \<Rightarrow> R s4))
         = R (t\<lparr>pdf := Some (p\<lparr>calls := calls p @
                  [AddPage, Image b 0 0 (card_width_in_inches t) (card_height_in_inches t),
                   AddPage, Image f 0 0 (card_width_in_inches t) (card_height_in_inches t)]\<rparr>)\<rparr>)"
  using assms by (simp add: add_image_eq)

lemma seq_step:
  assumes k: "0 < k" and K: "number_of_cards_per_file s = int k"
    and m: "0 < m"
    and look: "map_of (paths_by_slot s) (int m) = Some (backs_in_order s ! m, fronts_in_order s ! m)"
  shows "export_loop (seq_state s k m) (int m # rest) = export_loop (seq_state s k (Suc m)) rest"
proof -
  define q where "q = (m - 1) div k"
  define t where "t = seq_state s k m"
  have m0: "int m \<noteq> 0" using m by simp
  have K0: "number_of_cards_per_file t \<noteq> 0" using k K by (simp add: t_def)
  have modK: "(int m mod number_of_cards_per_file t = 0) = (m mod k = 0)"
    unfolding t_def seq_state_fields K by (simp flip: of_nat_mod)
  have lk: "map_of (paths_by_slot t) (int m) = Some (backs_in_order s ! m, fronts_in_order s ! m)"
    using look by (simp add: t_def)
  have unfold: "export_loop t (int m # rest) =
     (case (if int m = 0 then Inr (generate_pdf t)
                 else if number_of_cards_per_file t = 0 then Inl (ZeroDivisionError, t)
                 else if int m mod number_of_cards_per_file t = 0
                 then (case save_file t of
                         Inl e \<Rightarrow> Inl e
                       | Inr s1 \<Rightarrow> Inr (generate_pdf (s1\<lparr>file_num := file_num s1 + 1\<rparr>)))
                 else Inr t) of
             Inl e \<Rightarrow> Inl e
           | Inr s2 \<Rightarrow>
               (case add_image (backs_in_order s ! m) s2 of
                  Inl e \<Rightarrow> Inl e
                | Inr s3 \<Rightarrow>
                    (case add_image (fronts_in_order s ! m) s3 of
                       Inl e \<Rightarrow> Inl e
                     | Inr s4 \<Rightarrow> export_loop s4 rest)))"
    by (simp only: export_loop.simps lk option.case prod.case)
  show ?thesis
  proof (cases "m mod k = 0")
    case True
    note al = div_pred_aligned[OF k m True]
    define t2 where "t2 = generate_pdf ((t\<lparr>outputs := outputs t @ [(save_path t @ py_str_int (file_num t) @ ''.pdf'',
                 card_document s (q * k) m)]\<rparr>)\<lparr>file_num := file_num t + 1\<rparr>)"
    have start: "(if int m = 0 then Inr (generate_pdf t)
                 else if number_of_cards_per_file t = 0 then Inl (ZeroDivisionError, t)
                 else if int m mod number_of_cards_per_file t = 0
                 then (case save_file t of
                         Inl e \<Rightarrow> Inl e
                       | Inr s1 \<Rightarrow> Inr (generate_pdf (s1\<lparr>file_num := file_num s1 + 1\<rparr>)))
                 else Inr t) = Inr t2"
    proof -
      have pt: "pdf t = Some (card_document s (q * k) m)" by (simp add: t_def q_def)
      show ?thesis
        using m0 K0 True unfolding modK save_file_Some[OF pt] t2_def by simp
    qed
    have p2: "pdf t2 = Some \<lparr>orientation = ''P'', unit = ''in'',
                     format = CustomFormat (card_width_in_inches s) (card_height_in_inches s),
                     calls = []\<rparr>"
      by (simp add: t2_def generate_pdf_def t_def)
    have "export_loop t (int m # rest) =
        export_loop (t2\<lparr>pdf := Some (\<lparr>orientation = ''P'', unit = ''in'',
                     format = CustomFormat (card_width_in_inches s) (card_height_in_inches s),
                     calls = []\<rparr>\<lparr>calls := [] @
                  [AddPage, Image (backs_in_order s ! m) 0 0 (card_width_in_inches t2) (card_height_in_inches t2),
                   AddPage, Image (fronts_in_order s ! m) 0 0 (card_width_in_inches t2) (card_height_in_inches t2)]\<rparr>)\<rparr>) rest"
      unfolding unfold start sum.case
      using add_two_images[OF p2, where b = "backs_in_order s ! m" and f = "fronts_in_order s ! m"
          and R = "\<lambda>s4. export_loop s4 rest"]
      by simp
    moreover have "t2\<lparr>pdf := Some (\<lparr>orientation = ''P'', unit = ''in'',
                     format = CustomFormat (card_width_in_inches s) (card_height_in_inches s),
                     calls = []\<rparr>\<lparr>calls := [] @
                  [AddPage, Image (backs_in_order s ! m) 0 0 (card_width_in_inches t2) (card_height_in_inches t2),
                   AddPage, Image (fronts_in_order s ! m) 0 0 (card_width_in_inches t2) (card_height_in_inches t2)]\<rparr>)\<rparr>
        = seq_state s k (Suc m)"
      using al
      by (simp add: t2_def t_def seq_state_def generate_pdf_def q_def card_document_def
            card_calls_def document_name_def)
    ultimately show ?thesis unfolding t_def by simp
  next
    case False
    note un = div_pred_unaligned[OF m False]
    have le: "q * k \<le> m"
    proof -
      have "q * k \<le> m - 1" unfolding q_def by simp
      then show ?thesis by simp
    qed
    have start: "(if int m = 0 then Inr (generate_pdf t)
                 else if number_of_cards_per_file t = 0 then Inl (ZeroDivisionError, t)
                 else if int m mod number_of_cards_per_file t = 0
                 then (case save_file t of
                         Inl e \<Rightarrow> Inl e
                       | Inr s1 \<Rightarrow> Inr (generate_pdf (s1\<lparr>file_num := file_num s1 + 1\<rparr>)))
                 else Inr t) = Inr t"
      using m0 K0 False unfolding modK by simp
    have pt: "pdf t = Some (card_document s (q * k) m)" by (simp add: t_def q_def)
    have "export_loop t (int m # rest) =
        export_loop (t\<lparr>pdf := Some ((card_document s (q * k) m)\<lparr>calls := calls (card_document s (q * k) m) @
                  [AddPage, Image (backs_in_order s ! m) 0 0 (card_width_in_inches t) (card_height_in_inches t),
                   AddPage, Image (fronts_in_order s ! m) 0 0 (card_width_in_inches t) (card_height_in_inches t)]\<rparr>)\<rparr>) rest"
      unfolding unfold start sum.case
      by (rule add_two_images[OF pt])
    moreover have "t\<lparr>pdf := Some ((card_document s (q * k) m)\<lparr>calls := calls (card_document s (q * k) m) @
                  [AddPage, Image (backs_in_order s ! m) 0 0 (card_width_in_inches t) (card_height_in_inches t),
                   AddPage, Image (fronts_in_order s ! m) 0 0 (card_width_in_inches t) (card_height_in_inches t)]\<rparr>)\<rparr>
        = seq_state s k (Suc m)"
      using un le
      by (simp add: t_def seq_state_def q_def card_document_def card_calls_def)
    ultimately show ?thesis unfolding t_def by simp
  qed
qed



subsection \<open>The preparedness check\<close>








lemma subprocess_run_paths:
  "paths_by_slot (snd (subprocess_run E call s)) = paths_by_slot s"
  by (simp add: subprocess_run_def split_beta)

lemma convert_to_jpg_paths:
  "paths_by_slot (snd (convert_to_jpg E p s)) = paths_by_slot s"
  by (simp add: convert_to_jpg_def Let_def subprocess_run_paths)

lemma convert_to_jpg_endswith: "py_endswith (fst (convert_to_jpg E p s)) ''jpg''"
  using new_jpg_path_endswith[of p] by (simp add: convert_to_jpg_def Let_def)

lemma convert_to_jpg_jpg: "py_endswith p ''jpg'' \<Longrightarrow> convert_to_jpg E p s = (p, s)"
  by (simp add: convert_to_jpg_def)

lemma prepare_loop_step:
  assumes "map_of (paths_by_slot s) x = Some t"
  shows "\<exists>s6 tail.
           (prepare_loop E s (x # rest) = prepare_loop E s6 rest
              \<or> (\<exists>e. prepare_loop E s (x # rest) = Inl (e, s6)))
         \<and> paths_by_slot s6
             = AList.update x (fst t, fst (convert_to_jpg E (snd t) s)) (paths_by_slot s)
         \<and> commands s6 = commands (snd (convert_to_jpg E (snd t) s))
                            @ Identify (fst (convert_to_jpg E (snd t) s)) # tail
         \<and> (tail = [] \<or> tail = [CutAndReshape (fst (convert_to_jpg E (snd t) s))])"
proof -
  define jpeg_path where "jpeg_path = fst (convert_to_jpg E (snd t) s)"
  define s1 where "s1 = snd (convert_to_jpg E (snd t) s)"
  define s2 where "s2 = s1\<lparr>paths_by_slot := AList.update x (fst t, jpeg_path) (paths_by_slot s1)\<rparr>"
  define s3 where "s3 = snd (subprocess_run E (Identify jpeg_path) s2)"
  have p3: "paths_by_slot s3 = AList.update x (fst t, jpeg_path) (paths_by_slot s)"
    unfolding s3_def subprocess_run_paths s2_def s1_def by (simp add: convert_to_jpg_paths)
  have c3: "commands s3 = commands s1 @ [Identify jpeg_path]"
    unfolding s3_def subprocess_run_commands s2_def by simp
  have unfold: "prepare_loop E s (x # rest) =
        (case images_havent_been_prepared E jpeg_path s2 of
                Inl e \<Rightarrow> Inl e
              | Inr ((need_downsize, need_reshape, need_compression), s3) \<Rightarrow>
                  (let s4 = (if need_compression then compress_image E jpeg_path s3 else s3);
                       s5 = (if need_reshape then cut_and_reshape E jpeg_path s4 else s4);
                       s6 = (if need_downsize then downsize_image E jpeg_path s5 else s5)
                   in prepare_loop E s6 rest))"
    unfolding jpeg_path_def s1_def s2_def by (simp add: assms split_beta Let_def)
  from images_havent_been_prepared_cases[of E jpeg_path s2]
  show ?thesis
  proof (elim disjE exE)
    fix e
    assume "images_havent_been_prepared E jpeg_path s2 = Inl (e, snd (subprocess_run E (Identify jpeg_path) s2))"
    then have "prepare_loop E s (x # rest) = Inl (e, s3)"
      unfolding unfold s3_def by simp
    then show ?thesis
      using p3 c3 unfolding jpeg_path_def s1_def by blast
  next
    fix need_reshape
    assume a: "images_havent_been_prepared E jpeg_path s2
        = Inr ((False, need_reshape, False), snd (subprocess_run E (Identify jpeg_path) s2))"
    define s5 where "s5 = (if need_reshape then cut_and_reshape E jpeg_path s3 else s3)"
    have r: "prepare_loop E s (x # rest) = prepare_loop E s5 rest"
      unfolding unfold a s5_def s3_def by simp
    have p5: "paths_by_slot s5 = AList.update x (fst t, jpeg_path) (paths_by_slot s)"
      unfolding s5_def using p3 by (simp add: cut_and_reshape_def subprocess_run_paths)
    have c5: "commands s5 = commands s1 @ Identify jpeg_path # (if need_reshape then [CutAndReshape jpeg_path] else [])"
      unfolding s5_def using c3 by (simp add: cut_and_reshape_def subprocess_run_commands)
    have "(if need_reshape then [CutAndReshape jpeg_path] else []) = []
          \<or> (if need_reshape then [CutAndReshape jpeg_path] else []) = [CutAndReshape jpeg_path]"
      by simp
    then show ?thesis
      using r p5 c5 unfolding jpeg_path_def s1_def by blast
  qed
qed

lemma jpg_front_update:
  assumes "py_endswith f ''jpg''"
    and "paths_by_slot s6 = AList.update x (b, f) (paths_by_slot s)"
  shows "jpg_front s6 x" and "jpg_front s k \<Longrightarrow> jpg_front s6 k"
  using assms by (simp_all add: jpg_front_def update_conv')

lemma prepare_loop_jpg_fronts:
  "prepare_loop E s ks = Inr s' \<Longrightarrow>
     list_all (jpg_front s') ks \<and> (\<forall>k. jpg_front s k \<longrightarrow> jpg_front s' k)
     \<and> map fst (paths_by_slot s') = map fst (paths_by_slot s)"
proof (induction ks arbitrary: s)
  case Nil
  then show ?case by simp
next
  case (Cons x rest)
  obtain t where t: "map_of (paths_by_slot s) x = Some t"
    using Cons.prems by (cases "map_of (paths_by_slot s) x") simp_all
  from prepare_loop_step[OF t, of E rest] Cons.prems
  obtain s6 where r: "prepare_loop E s6 rest = Inr s'"
    and p6: "paths_by_slot s6
             = AList.update x (fst t, fst (convert_to_jpg E (snd t) s)) (paths_by_slot s)"
    by auto
  note j = jpg_front_update[OF convert_to_jpg_endswith p6]
  have ih: "list_all (jpg_front s') rest" "\<And>k. jpg_front s6 k \<Longrightarrow> jpg_front s' k"
    "map fst (paths_by_slot s') = map fst (paths_by_slot s6)"
    using Cons.IH[OF r] by simp_all
  have "x \<in> set (map fst (paths_by_slot s))"
    using t by (metis map_of_eq_None_iff option.distinct(1) set_map)
  then have keys: "map fst (paths_by_slot s6) = map fst (paths_by_slot s)"
    unfolding p6 by (simp add: update_keys)
  show ?case using ih j keys by simp
qed

lemma prepare_loop_no_conversion:
  "list_all (jpg_front s) ks \<Longrightarrow>
     \<exists>new. commands (outcome_state (prepare_loop E s ks)) = commands s @ new
           \<and> (\<forall>p q. ConvertToJpg p q \<notin> set new)"
proof (induction ks arbitrary: s)
  case Nil
  show ?case by (simp add: outcome_state_def)
next
  case (Cons x rest)
  then obtain t where t: "map_of (paths_by_slot s) x = Some t" and e: "py_endswith (snd t) ''jpg''"
    by (auto simp: jpg_front_def split: option.splits)
  have c: "convert_to_jpg E (snd t) s = (snd t, s)" by (rule convert_to_jpg_jpg[OF e])
  from prepare_loop_step[OF t, of E rest]
  obtain s6 tail where
    r: "prepare_loop E s (x # rest) = prepare_loop E s6 rest
              \<or> (\<exists>e. prepare_loop E s (x # rest) = Inl (e, s6))"
    and p6: "paths_by_slot s6 = AList.update x (fst t, snd t) (paths_by_slot s)"
    and c6: "commands s6 = commands s @ Identify (snd t) # tail"
    and tl: "tail = [] \<or> tail = [CutAndReshape (snd t)]"
    unfolding c by auto
  have nt: "\<forall>p q. ConvertToJpg p q \<notin> set (Identify (snd t) # tail)"
    using tl by auto
  from r show ?case
  proof
    assume "\<exists>e. prepare_loop E s (x # rest) = Inl (e, s6)"
    then have "outcome_state (prepare_loop E s (x # rest)) = s6"
      by (auto simp: outcome_state_def)
    then show ?thesis using c6 nt by auto
  next
    assume a: "prepare_loop E s (x # rest) = prepare_loop E s6 rest"
    have "list_all (jpg_front s6) rest"
      using Cons.prems jpg_front_update(2)[OF e p6] by (simp add: list_all_iff)
    from Cons.IH[OF this]
    obtain new where n: "commands (outcome_state (prepare_loop E s6 rest)) = commands s6 @ new"
      "\<forall>p q. ConvertToJpg p q \<notin> set new" by blast
    have "commands (outcome_state (prepare_loop E s (x # rest)))
        = commands s @ ((Identify (snd t) # tail) @ new)"
      unfolding a n(1) c6 by simp
    moreover have "\<forall>p q. ConvertToJpg p q \<notin> set ((Identify (snd t) # tail) @ new)"
      using nt n(2) by auto
    ultimately show ?thesis by blast
  qed
qed

lemma second_prepare_no_conversion:
  assumes "prepare_images E s = Inr s1"
    and "ConvertToJpg p q \<in> set (commands (outcome_state (prepare_images E2 s1)))"
  shows "ConvertToJpg p q \<in> set (commands s1)"
proof -
  have "list_all (jpg_front s1) (map fst (paths_by_slot s))"
    and "map fst (paths_by_slot s1) = map fst (paths_by_slot s)"
    using prepare_loop_jpg_fronts[OF assms(1)[unfolded prepare_images_def]] by simp_all
  then have "list_all (jpg_front s1) (map fst (paths_by_slot s1))" by simp
  from prepare_loop_no_conversion[OF this, of E2]
  show ?thesis using assms(2) unfolding prepare_images_def by auto
qed

end
